theory Spec2Isabelle
  imports Main "HOL-Library.AList"
begin

section \<open>JavaScript values and strings\<close>

text \<open>
  The values a row record or a driver result can hold. \<open>JNum n\<close> is the number \<open>n\<close>,
  for \<open>n\<close> a safe integer (magnitude below \<open>2^53\<close>): \<open>String\<close> prints such a number as
  its decimal digits, which is what \<open>to_String\<close> does. \<open>JOther t\<close> is any other value:
  an object, a function, a number that is not a safe integer (\<open>NaN\<close> apart, which is not
  modelled); every such value is truthy, and \<open>t\<close> is the text \<open>String\<close> gives for it.
  A string is a \<open>char list\<close>; a character outside ASCII stands as its UTF-8 bytes.
\<close>

datatype jsval = JUndefined | JNull | JBool bool | JNum int | JStr string | JOther string

text \<open>A plain object: its own properties as they were added, each key bound once.\<close>

type_synonym row = "(string \<times> jsval) list"

text \<open>ToBoolean: what \<open>||\<close>, \<open>!\<close> and \<open>if\<close> test.\<close>

fun truthy :: "jsval \<Rightarrow> bool" where
  "truthy JUndefined = False"
| "truthy JNull = False"
| "truthy (JBool b) = b"
| "truthy (JNum n) = (n \<noteq> 0)"
| "truthy (JStr s) = (s \<noteq> [])"
| "truthy (JOther t) = True"

text \<open>\<open>a || b\<close>\<close>

definition js_or :: "jsval \<Rightarrow> jsval \<Rightarrow> jsval" where
  "js_or a b = (if truthy a then a else b)"

text \<open>
  What a plain object inherits from \<open>Object.prototype\<close>: \<open>__proto__\<close> reads the
  prototype itself, \<open>constructor\<close> the function \<open>Object\<close>, and ten more keys read
  built-in functions. The texts are those V8 prints for them.
\<close>

definition prototype_member :: "string \<Rightarrow> jsval option" where
  "prototype_member key =
     (if key = ''__proto__'' then Some (JOther ''[object Object]'')
      else if key = ''constructor'' then Some (JOther ''function Object() { [native code] }'')
      else if key \<in> set [''__defineGetter__'', ''__defineSetter__'', ''hasOwnProperty'',
                           ''__lookupGetter__'', ''__lookupSetter__'', ''isPrototypeOf'',
                           ''propertyIsEnumerable'', ''toString'', ''valueOf'', ''toLocaleString'']
      then Some (JOther (''function '' @ key @ ''() { [native code] }''))
      else None)"

text \<open>
  \<open>obj[key]\<close> on a plain object: the own property; failing that the inherited member;
  \<open>undefined\<close> when there is neither.
\<close>

definition get_prop :: "row \<Rightarrow> string \<Rightarrow> jsval" where
  "get_prop obj key =
     (case map_of obj key of
        Some v \<Rightarrow> v
      | None \<Rightarrow> (case prototype_member key of Some v \<Rightarrow> v | None \<Rightarrow> JUndefined))"

definition digit_char :: "nat \<Rightarrow> char" where
  "digit_char n = ''0123456789'' ! n"

definition is_digit :: "char \<Rightarrow> bool" where
  "is_digit c = (c \<in> set ''0123456789'')"

definition digit_value :: "char \<Rightarrow> nat" where
  "digit_value c = of_char c - 48"

definition nat_of_digits :: "string \<Rightarrow> nat" where
  "nat_of_digits s = foldl (\<lambda>n c. 10 * n + digit_value c) 0 s"

text \<open>
  A key is an array index when it is the decimal text, with no leading zero, of a
  number below \<open>2^32 - 1\<close>.
\<close>

definition is_array_index :: "string \<Rightarrow> bool" where
  "is_array_index s =
     (s \<noteq> [] \<and> list_all is_digit s \<and> (s = ''0'' \<or> hd s \<noteq> CHR ''0'') \<and>
      nat_of_digits s < 4294967295)"

text \<open>
  \<open>Object.keys(obj)\<close>: the keys that are array indices first, in ascending numeric
  order, then the other keys in the order they were added.
\<close>

definition object_keys :: "row \<Rightarrow> string list" where
  "object_keys obj =
     (let ks = map fst obj
      in sort_key nat_of_digits (filter is_array_index ks)
         @ filter (\<lambda>k. \<not> is_array_index k) ks)"

fun string_of_nat :: "nat \<Rightarrow> string" where
  "string_of_nat n =
     (if n < 10 then [digit_char n] else string_of_nat (n div 10) @ [digit_char (n mod 10)])"

declare string_of_nat.simps [simp del]

definition string_of_int :: "int \<Rightarrow> string" where
  "string_of_int i =
     (if i < 0 then CHR ''-'' # string_of_nat (nat (- i)) else string_of_nat (nat i))"

text \<open>\<open>String(v)\<close>\<close>

fun to_String :: "jsval \<Rightarrow> string" where
  "to_String JUndefined = ''undefined''"
| "to_String JNull = ''null''"
| "to_String (JBool b) = (if b then ''true'' else ''false'')"
| "to_String (JNum n) = string_of_int n"
| "to_String (JStr s) = s"
| "to_String (JOther t) = t"

text \<open>\<open>s.startsWith(p)\<close>\<close>

definition starts_with :: "string \<Rightarrow> string \<Rightarrow> bool" where
  "starts_with s p = (take (length p) s = p)"

text \<open>\<open>s.includes(sub)\<close>: \<open>sub\<close> occurs in \<open>s\<close> as a contiguous run.\<close>

fun str_includes :: "string \<Rightarrow> string \<Rightarrow> bool" where
  "str_includes [] sub = (sub = [])"
| "str_includes (c # cs) sub = (starts_with (c # cs) sub \<or> str_includes cs sub)"

text \<open>\<open>xs.join(sep)\<close> on an array of strings\<close>

fun join :: "string \<Rightarrow> string list \<Rightarrow> string" where
  "join sep [] = []"
| "join sep [x] = x"
| "join sep (x # y # ys) = x @ sep @ join sep (y # ys)"

text \<open>
  \<open>s.split(sep)\<close> with a string separator: cut at every occurrence of \<open>sep\<close>, scanning
  from the left; the empty separator cuts between all characters, and the empty string
  then gives no piece at all.
\<close>

function split_go :: "string \<Rightarrow> string \<Rightarrow> string \<Rightarrow> string list" where
  "split_go sep cur [] = [cur]"
| "split_go sep cur (c # cs) =
     (if sep \<noteq> [] \<and> take (length sep) (c # cs) = sep
      then cur # split_go sep [] (drop (length sep) (c # cs))
      else split_go sep (cur @ [c]) cs)"
  by pat_completeness auto
termination
  by (relation "measure (\<lambda>(sep, cur, s). length s)") auto

definition js_split :: "string \<Rightarrow> string \<Rightarrow> string list" where
  "js_split s sep = (if sep = [] then map (\<lambda>c. [c]) s else split_go sep [] s)"

section \<open>CSV helpers (utils/helpers.js)\<close>

text \<open>\<open>cell.replace(/"/g, '""')\<close>\<close>

definition double_quotes :: "string \<Rightarrow> string" where
  "double_quotes s = concat (map (\<lambda>c. if c = CHR ''\"'' then ''\"\"'' else [c]) s)"

text \<open>
  The first three statements of the inner \<open>headers.map\<close> of \<open>exportToCSV\<close> (lines
  119 to 121): the text of one cell of \<open>item\<close>. The \<open>null\<close>/\<open>undefined\<close> test of the
  source comes after \<open>|| ''\<close> and is kept.
\<close>

definition cell_text :: "row \<Rightarrow> string \<Rightarrow> string" where
  "cell_text item header =
     (let cell0 = js_or (get_prop item header) (JStr []);
          cell1 = (if cell0 = JNull \<or> cell0 = JUndefined then JStr [] else cell0)
      in to_String cell1)"

text \<open>The rest of that body (lines 124 to 128): the cell as it is written.\<close>

definition csv_cell :: "string \<Rightarrow> row \<Rightarrow> string \<Rightarrow> string" where
  "csv_cell delimiter item header =
     (let cell = cell_text item header
      in if str_includes cell delimiter \<or> str_includes cell ''\"'' \<or> str_includes cell [CHR 0x0A]
         then ''\"'' @ double_quotes cell @ ''\"''
         else cell)"

text \<open>
  \<open>exportToCSV(data, delimiter)\<close>; \<open>None\<close> is an absent (\<open>null\<close>, \<open>undefined\<close>) \<open>data\<close>.
  The \<open>forEach\<close> appends one line per item to \<open>csvContent\<close>. The delimiter is
  always given here (the source's default is the comma).
\<close>

definition exportToCSV :: "row list option \<Rightarrow> string \<Rightarrow> string" where
  "exportToCSV data delimiter =
     (case data of
        None \<Rightarrow> []
      | Some [] \<Rightarrow> []
      | Some (first # rest) \<Rightarrow>
          (let headers = object_keys first;
               csvContent = join delimiter headers @ [CHR 0x0A]
           in foldl (\<lambda>csv item.
                       csv @ join delimiter (map (csv_cell delimiter item) headers) @ [CHR 0x0A])
                csvContent (first # rest)))"

text \<open>\<open>parseCSV(csvString, delimiter)\<close>\<close>

definition parseCSV :: "string \<Rightarrow> string \<Rightarrow> string list list" where
  "parseCSV csvString delimiter =
     (let lines = js_split csvString [CHR 0x0A]
      in map (\<lambda>line. js_split line delimiter) lines)"

subsection \<open>The reference splitter of the round-trip property\<close>

text \<open>
  Not part of the repository: the splitter the specification's round-trip property reads
  the emitted text with. It cuts lines at newlines and cells at the delimiter character,
  except inside a double-quoted segment; inside one, a doubled quote is one quote
  character. \<open>quoted\<close> says whether a quoted segment is open, \<open>cell\<close> and \<open>line\<close> are
  the cell and the line read so far. A last line with no newline after it is kept when
  it is not empty.
\<close>

fun ref_split_go :: "char \<Rightarrow> bool \<Rightarrow> string \<Rightarrow> string list \<Rightarrow> string \<Rightarrow> string list list" where
  "ref_split_go d quoted cell line [] =
     (if cell = [] \<and> line = [] then [] else [line @ [cell]])"
| "ref_split_go d True cell line (c # cs) =
     (if c = CHR ''\"'' then
        (case cs of
           c' # cs' \<Rightarrow>
             if c' = CHR ''\"'' then ref_split_go d True (cell @ ''\"'') line cs'
             else ref_split_go d False cell line cs
         | [] \<Rightarrow> ref_split_go d False cell line cs)
      else ref_split_go d True (cell @ [c]) line cs)"
| "ref_split_go d False cell line (c # cs) =
     (if c = CHR ''\"'' then ref_split_go d True cell line cs
      else if c = d then ref_split_go d False [] (line @ [cell]) cs
      else if c = CHR 0x0A then (line @ [cell]) # ref_split_go d False [] [] cs
      else ref_split_go d False (cell @ [c]) line cs)"

definition ref_split :: "char \<Rightarrow> string \<Rightarrow> string list list" where
  "ref_split d s = ref_split_go d False [] [] s"

text \<open>
  The round-trip property as the specification words it. A line read back recovers a
  row when it has one cell per column and, with each cell put under its column name,
  it binds exactly the row's keys, each to the string conversion of the row's value.
  The property: of the lines the reference splitter reads, those after the header line
  recover the rows, one by one.
\<close>

definition row_recovered :: "string list \<Rightarrow> string list \<Rightarrow> row \<Rightarrow> bool" where
  "row_recovered headers line r =
     (length line = length headers \<and>
      (\<forall>k \<in> set headers \<union> set (object_keys r).
         map_of (zip headers line) k = map_option to_String (map_of r k)))"

definition csv_roundtrip_claim :: "char \<Rightarrow> row list \<Rightarrow> bool" where
  "csv_roundtrip_claim d rows =
     (case rows of
        [] \<Rightarrow> True
      | first # rest \<Rightarrow>
          list_all2 (row_recovered (object_keys first))
            (tl (ref_split d (exportToCSV (Some rows) [d]))) rows)"

text \<open>
  Three notions the statements below use. A text is plain for a delimiter character when
  \<open>exportToCSV\<close> writes it as it is; \<open>emit\<close> is a text as \<open>exportToCSV\<close> writes it; a
  cell value is \<open>cell_ok\<close> when \<open>|| ''\<close> leaves its string conversion alone: a string,
  \<open>true\<close>, a safe integer other than zero, or any other truthy value.
\<close>

definition plain :: "char \<Rightarrow> string \<Rightarrow> bool" where
  "plain d s = (d \<notin> set s \<and> CHR ''\"'' \<notin> set s \<and> CHR 0x0A \<notin> set s)"

definition emit :: "char \<Rightarrow> string \<Rightarrow> string" where
  "emit d s = (if plain d s then s else ''\"'' @ double_quotes s @ ''\"'')"

fun cell_ok :: "jsval \<Rightarrow> bool" where
  "cell_ok JUndefined = False"
| "cell_ok JNull = False"
| "cell_ok (JBool b) = b"
| "cell_ok (JNum n) = (n \<noteq> 0 \<and> - 9007199254740992 < n \<and> n < 9007199254740992)"
| "cell_ok (JStr s) = True"
| "cell_ok (JOther t) = True"

section \<open>Argument vectors (utils/helpers.js)\<close>

datatype argval = ATrue | AStr string

text \<open>
  The \<open>params\<close> object: its own keys in insertion order (JavaScript lists keys that
  are array indices first; a lookup does not depend on the order). \<open>params[key] = value\<close>
  binds \<open>key\<close>, in place when it is bound already; for the key \<open>__proto__\<close> the
  assignment goes to the setter inherited from \<open>Object.prototype\<close>, which ignores a
  string or a boolean, and no own key appears.
\<close>

type_synonym params = "(string \<times> argval) list"

definition set_param :: "params \<Rightarrow> string \<Rightarrow> argval \<Rightarrow> params" where
  "set_param ps key v = (if key = ''__proto__'' then ps else AList.update key v ps)"

text \<open>
  One turn of the \<open>args.forEach\<close> of \<open>parseArgs\<close>, on the pair of \<open>params\<close> and
  \<open>currentKey\<close> (\<open>None\<close> is \<open>null\<close>). \<open>split\<close> with a non-empty separator gives at
  least one piece, so \<open>parts[0]\<close> is there.
\<close>

definition parse_step :: "params \<times> string option \<Rightarrow> string \<Rightarrow> params \<times> string option" where
  "parse_step st arg =
     (let ps = fst st; currentKey = snd st in
      if starts_with arg ''--'' then
        (case js_split (drop 2 arg) ''='' of
           [] \<Rightarrow> st
         | key # others \<Rightarrow>
             (case others of
                v # _ \<Rightarrow> (set_param ps key (AStr v), None)
              | [] \<Rightarrow> (set_param ps key ATrue, Some key)))
      else if starts_with arg ''-'' then
        (let key = drop 1 arg in (set_param ps key ATrue, Some key))
      else
        (case currentKey of
           Some key \<Rightarrow> if key \<noteq> [] then (set_param ps key (AStr arg), None) else st
         | None \<Rightarrow> st))"

definition parseArgs :: "string list \<Rightarrow> params" where
  "parseArgs args = fst (foldl parse_step ([], None) args)"

text \<open>
  The key a token names when it is a flag token, as \<open>parse_step\<close> reads it: the text
  after \<open>--\<close> up to the first \<open>=\<close>, or the text after \<open>-\<close>; \<open>None\<close> for a token that
  does not start with \<open>-\<close>.
\<close>

definition flag_key :: "string \<Rightarrow> string option" where
  "flag_key arg =
     (if starts_with arg ''--'' then Some (takeWhile (\<lambda>c. c \<noteq> CHR ''='') (drop 2 arg))
      else if starts_with arg ''-'' then Some (drop 1 arg)
      else None)"

section \<open>The database client (lib/client.js)\<close>

text \<open>
  A thrown error is its message; \<open>TypeError\<close> is the engine's own, raised by a property
  access on \<open>null\<close>. Console output is not modelled.
\<close>

datatype error = Error string | TypeError string

fun message_of :: "error \<Rightarrow> string" where
  "message_of (Error m) = m"
| "message_of (TypeError m) = m"

type_synonym handle = nat

record conn_config =
  host :: jsval
  port :: jsval
  user :: jsval
  password :: jsval
  database :: jsval
  timeout :: jsval

text \<open>The options object \<open>connect\<close> hands to \<open>mysql.createConnection\<close>.\<close>

record conn_options =
  o_host :: jsval
  o_port :: jsval
  o_user :: jsval
  o_password :: jsval
  o_database :: jsval
  connectTimeout :: jsval
  ssl :: bool
  charset :: string

text \<open>The calls made on the SQL driver, in the order they are made.\<close>

datatype event =
    CreateConnection conn_options
  | End handle
  | Execute handle string "jsval list"
  | Query handle string "jsval list list"

text \<open>
  The SQL driver (\<open>mysql2/promise\<close>) is outside the repository and is a parameter: for
  each call, given the calls made before it, either the error the awaited promise rejects
  with or its value. \<open>execute\<close> gives rows and field metadata, \<open>query\<close> the
  \<open>affectedRows\<close> of its result header.
\<close>

record driver =
  createConnection :: "event list \<Rightarrow> conn_options \<Rightarrow> error + handle"
  end_conn :: "event list \<Rightarrow> handle \<Rightarrow> error + unit"
  execute :: "event list \<Rightarrow> handle \<Rightarrow> string \<Rightarrow> jsval list \<Rightarrow> error + (row list \<times> string list)"
  query_conn :: "event list \<Rightarrow> handle \<Rightarrow> string \<Rightarrow> jsval list list \<Rightarrow> error + nat"

text \<open>
  A \<open>DorisClient\<close>: its three fields, and with them the driver calls made so far.
\<close>

record client =
  config :: conn_config
  connection :: "handle option"
  isConnected :: bool
  calls :: "event list"

definition new_client :: "conn_config \<Rightarrow> client" where
  "new_client cfg = \<lparr>config = cfg, connection = None, isConnected = False, calls = []\<rparr>"

definition connect_options :: "conn_config \<Rightarrow> conn_options" where
  "connect_options cfg =
     \<lparr>o_host = host cfg, o_port = port cfg, o_user = user cfg, o_password = password cfg,
      o_database = database cfg, connectTimeout = js_or (timeout cfg) (JNum 30000),
      ssl = False, charset = ''utf8mb4''\<rparr>"

definition connect :: "driver \<Rightarrow> client \<Rightarrow> (error + bool) \<times> client" where
  "connect drv c =
     (let opts = connect_options (config c);
          c1 = c\<lparr>calls := calls c @ [CreateConnection opts]\<rparr>
      in case createConnection drv (calls c) opts of
           Inr h \<Rightarrow> (Inr True, c1\<lparr>connection := Some h, isConnected := True\<rparr>)
         | Inl e \<Rightarrow> (Inl e, c1\<lparr>isConnected := False\<rparr>))"

definition disconnect :: "driver \<Rightarrow> client \<Rightarrow> (error + unit) \<times> client" where
  "disconnect drv c =
     (case connection c of
        None \<Rightarrow> (Inr (), c)
      | Some h \<Rightarrow>
          (let c1 = c\<lparr>calls := calls c @ [End h]\<rparr>
           in case end_conn drv (calls c) h of
                Inl e \<Rightarrow> (Inl e, c1)
              | Inr u \<Rightarrow> (Inr (), c1\<lparr>isConnected := False, connection := None\<rparr>)))"

definition ensureConnected :: "driver \<Rightarrow> client \<Rightarrow> (error + unit) \<times> client" where
  "ensureConnected drv c =
     (if \<not> isConnected c then
        (case connect drv c of
           (Inl e, c1) \<Rightarrow> (Inl e, c1)
         | (Inr b, c1) \<Rightarrow> (Inr (), c1))
      else (Inr (), c))"

text \<open>What V8 says when \<open>this.connection.execute\<close> (or \<open>.query\<close>) meets a \<open>null\<close> handle.\<close>

definition null_handle_message :: "string \<Rightarrow> string" where
  "null_handle_message member = ''Cannot read properties of null (reading '' @ [CHR 0x27] @ member @ [CHR 0x27] @ '')''"

definition query :: "driver \<Rightarrow> string \<Rightarrow> jsval list \<Rightarrow> client \<Rightarrow> (error + row list \<times> string list) \<times> client" where
  "query drv sql ps c =
     (case ensureConnected drv c of
        (Inl e, c1) \<Rightarrow> (Inl e, c1)
      | (Inr u, c1) \<Rightarrow>
          (case connection c1 of
             None \<Rightarrow> (Inl (TypeError (null_handle_message ''execute'')), c1)
           | Some h \<Rightarrow>
               (let c2 = c1\<lparr>calls := calls c1 @ [Execute h sql ps]\<rparr>
                in case execute drv (calls c1) h sql ps of
                     Inl e \<Rightarrow> (Inl e, c2)
                   | Inr (rows, flds) \<Rightarrow> (Inr (rows, flds), c2))))"

definition getTableSchema :: "driver \<Rightarrow> string \<Rightarrow> string \<Rightarrow> client \<Rightarrow> (error + row list) \<times> client" where
  "getTableSchema drv db tbl c =
     (case ensureConnected drv c of
        (Inl e, c1) \<Rightarrow> (Inl e, c1)
      | (Inr u, c1) \<Rightarrow>
          (case query drv (''DESC `'' @ db @ ''`.`'' @ tbl @ ''`'') [] c1 of
             (Inl e, c2) \<Rightarrow> (Inl e, c2)
           | (Inr (rows, flds), c2) \<Rightarrow> (Inr rows, c2)))"

text \<open>
  The message of the error \<open>bulkImport\<close> raises on no data: the UTF-8 bytes of the
  ten-character literal of client.js line 151 (it says that no data was given to import).
\<close>

definition no_data_message :: string where
  "no_data_message = map char_of
     [0xE6, 0xB2, 0xA1, 0xE6, 0x9C, 0x89, 0xE6, 0x8F, 0x90, 0xE4, 0xBE, 0x9B, 0xE6, 0x95, 0xB0,
      0xE6, 0x8D, 0xAE, 0xE8, 0xBF, 0x9B, 0xE8, 0xA1, 0x8C, 0xE5, 0xAF, 0xBC, 0xE5, 0x85, 0xA5 :: nat]"

text \<open>
  \<open>{success: true, rowsAffected, message}\<close>; the message is the count between the two
  halves of the literal of client.js line 175, given as UTF-8 bytes.
\<close>

datatype import_result = ImportResult (imp_success: bool) (rowsAffected: nat) (imp_message: string)

definition import_message :: "nat \<Rightarrow> string" where
  "import_message n =
     map char_of [0xE6, 0x88, 0x90, 0xE5, 0x8A, 0x9F, 0xE5, 0xAF, 0xBC, 0xE5, 0x85, 0xA5, 0x20 :: nat]
     @ string_of_nat n
     @ map char_of [0x20, 0xE6, 0x9D, 0xA1, 0xE6, 0x95, 0xB0, 0xE6, 0x8D, 0xAE :: nat]"

text \<open>\<open>bulkImport(database, table, data)\<close>; \<open>None\<close> is an absent \<open>data\<close>.\<close>

definition bulkImport ::
  "driver \<Rightarrow> string \<Rightarrow> string \<Rightarrow> row list option \<Rightarrow> client \<Rightarrow> (error + import_result) \<times> client" where
  "bulkImport drv db tbl data c =
     (case data of
        None \<Rightarrow> (Inl (Error no_data_message), c)
      | Some [] \<Rightarrow> (Inl (Error no_data_message), c)
      | Some (r # rs) \<Rightarrow>
          (case ensureConnected drv c of
             (Inl e, c1) \<Rightarrow> (Inl e, c1)
           | (Inr u, c1) \<Rightarrow>
               (case getTableSchema drv db tbl c1 of
                  (Inl e, c2) \<Rightarrow> (Inl e, c2)
                | (Inr schema, c2) \<Rightarrow>
                    (let columns = map (\<lambda>col. js_or (get_prop col ''Field'') (get_prop col ''name'')) schema;
                         placeholders = join '', '' (map (\<lambda>col. ''?'') columns);
                         sql = ''INSERT INTO `'' @ db @ ''`.`'' @ tbl @ ''` (''
                               @ join '', '' (map (\<lambda>col. ''`'' @ to_String col @ ''`'') columns)
                               @ '') VALUES ('' @ placeholders @ '')'';
                         vals = map (\<lambda>row. map (\<lambda>col. get_prop row (to_String col)) columns) (r # rs)
                     in case connection c2 of
                          None \<Rightarrow> (Inl (TypeError (null_handle_message ''query'')), c2)
                        | Some h \<Rightarrow>
                            (let c3 = c2\<lparr>calls := calls c2 @ [Query h sql vals]\<rparr>
                             in case query_conn drv (calls c2) h sql vals of
                                  Inl e \<Rightarrow> (Inl e, c3)
                                | Inr n \<Rightarrow> (Inr (ImportResult True n (import_message n)), c3))))))"

subsection \<open>Sequences of operations\<close>

datatype op = OpConnect | OpDisconnect | OpQuery string "jsval list"

text \<open>
  One operation run to its end, whether it returns or raises; the caller goes on with
  the client as the operation left it.
\<close>

fun run_op :: "driver \<Rightarrow> client \<Rightarrow> op \<Rightarrow> client" where
  "run_op drv c OpConnect = snd (connect drv c)"
| "run_op drv c OpDisconnect = snd (disconnect drv c)"
| "run_op drv c (OpQuery sql ps) = snd (query drv sql ps c)"

definition run_ops :: "driver \<Rightarrow> op list \<Rightarrow> client \<Rightarrow> client" where
  "run_ops drv ops c = foldl (run_op drv) c ops"

text \<open>The invariant: a client that reports connected holds a handle.\<close>

definition client_inv :: "client \<Rightarrow> bool" where
  "client_inv c = (isConnected c \<longrightarrow> connection c \<noteq> None)"

text \<open>\<open>query\<close> reaches its \<open>execute\<close> call with no handle.\<close>

definition executes_on_null :: "driver \<Rightarrow> client \<Rightarrow> bool" where
  "executes_on_null drv c =
     (case ensureConnected drv c of
        (Inl e, c1) \<Rightarrow> False
      | (Inr u, c1) \<Rightarrow> connection c1 = None)"

section \<open>The tool adapter\<close>

datatype tool_params = ToolParams (p_sql: string) (p_database: "string option")

text \<open>\<open>{success: true, data, message}\<close> and \<open>{success: false, error, message}\<close>\<close>

datatype tool_result =
    ToolOk (data: "row list") (ok_message: string)
  | ToolFail (error: string) (fail_message: string)

text \<open>
  The two message templates of the adapter (lines 41 and 47), as UTF-8 bytes around the
  row count and before the error's message.
\<close>

definition success_message :: "nat \<Rightarrow> string" where
  "success_message n =
     map char_of [0xE6, 0x9F, 0xA5, 0xE8, 0xAF, 0xA2, 0xE6, 0x88, 0x90, 0xE5, 0x8A, 0x9F, 0xEF, 0xBC,
                  0x8C, 0xE8, 0xBF, 0x94, 0xE5, 0x9B, 0x9E, 0x20 :: nat]
     @ string_of_nat n
     @ map char_of [0x20, 0xE6, 0x9D, 0xA1, 0xE8, 0xAE, 0xB0, 0xE5, 0xBD, 0x95 :: nat]"

definition failure_message :: "string \<Rightarrow> string" where
  "failure_message m =
     map char_of [0xE6, 0x9F, 0xA5, 0xE8, 0xAF, 0xA2, 0xE5, 0xA4, 0xB1, 0xE8, 0xB4, 0xA5, 0x3A, 0x20 :: nat]
     @ m"

text \<open>
  The \<open>try\<close> block of \<open>dorisQuery\<close>. \<open>load\<close> is what \<open>loadConfig()\<close> gives: the error it
  rethrows, or the \<open>doris\<close> section of the parsed file (all fields \<open>undefined\<close> when the
  file has none). \<open>tool_config\<close> is the object the client is built from: a
  \<open>database\<close> parameter that is given and not empty replaces the section's. The client
  is the function's own; the driver calls it made are returned beside the result.
\<close>

definition tool_config :: "conn_config \<Rightarrow> tool_params \<Rightarrow> conn_config" where
  "tool_config doris params =
     (case p_database params of
        Some db \<Rightarrow> if db \<noteq> [] then doris\<lparr>database := JStr db\<rparr> else doris
      | None \<Rightarrow> doris)"

definition dorisQuery_try ::
  "error + conn_config \<Rightarrow> driver \<Rightarrow> tool_params \<Rightarrow> (error + tool_result) \<times> event list" where
  "dorisQuery_try load drv params =
     (case load of
        Inl e \<Rightarrow> (Inl e, [])
      | Inr doris \<Rightarrow>
          (let c0 = new_client (tool_config doris params)
           in case connect drv c0 of
                (Inl e, c1) \<Rightarrow> (Inl e, calls c1)
              | (Inr b, c1) \<Rightarrow>
                  (case query drv (p_sql params) [] c1 of
                     (Inl e, c2) \<Rightarrow> (Inl e, calls c2)
                   | (Inr (rows, flds), c2) \<Rightarrow>
                       (case disconnect drv c2 of
                          (Inl e, c3) \<Rightarrow> (Inl e, calls c3)
                        | (Inr u, c3) \<Rightarrow>
                            (Inr (ToolOk rows (success_message (length rows))), calls c3)))))"

text \<open>\<open>dorisQuery(params)\<close>: the \<open>catch\<close> turns whatever the block raised into a result.\<close>

definition dorisQuery ::
  "error + conn_config \<Rightarrow> driver \<Rightarrow> tool_params \<Rightarrow> (error + tool_result) \<times> event list" where
  "dorisQuery load drv params =
     (case dorisQuery_try load drv params of
        (Inl e, evs) \<Rightarrow> (Inr (ToolFail (message_of e) (failure_message (message_of e))), evs)
      | (Inr r, evs) \<Rightarrow> (Inr r, evs))"

section \<open>Concrete configurations and drivers\<close>

text \<open>
  Inputs at which the statements below are instantiated: a configuration, a driver that
  serves every call, one that refuses every connection, and one whose close call fails.
\<close>

definition cfg0 :: conn_config where
  "cfg0 = \<lparr>host = JStr ''db.example'', port = JNum 9030, user = JStr ''root'',
           password = JStr [], database = JStr ''demo'', timeout = JUndefined\<rparr>"

definition serving_driver :: driver where
  "serving_driver =
     \<lparr>createConnection = (\<lambda>hist opts. Inr 1),
      end_conn = (\<lambda>hist h. Inr ()),
      execute = (\<lambda>hist h sql ps. Inr ([[(''n'', JNum 1)]], [''n''])),
      query_conn = (\<lambda>hist h sql vals. Inr (length vals))\<rparr>"

definition refusing_driver :: driver where
  "refusing_driver = serving_driver\<lparr>createConnection := (\<lambda>hist opts. Inl (Error ''connect ECONNREFUSED''))\<rparr>"

definition stuck_close_driver :: driver where
  "stuck_close_driver = serving_driver\<lparr>end_conn := (\<lambda>hist h. Inl (Error ''close failed''))\<rparr>"

section \<open>The connection invariant\<close>

lemma connect_inv: "client_inv (snd (connect drv c))"
  by (simp add: connect_def client_inv_def Let_def split: sum.splits)

lemma disconnect_inv: "client_inv c \<Longrightarrow> client_inv (snd (disconnect drv c))"
  by (auto simp: disconnect_def client_inv_def Let_def split: option.splits sum.splits)

lemma ensureConnected_inv: "client_inv c \<Longrightarrow> client_inv (snd (ensureConnected drv c))"
  using connect_inv [of drv c]
  by (auto simp: ensureConnected_def split: prod.splits sum.splits)

lemma ensureConnected_connected:
  "ensureConnected drv c = (Inr u, c1) \<Longrightarrow> isConnected c1"
  by (auto simp: ensureConnected_def connect_def Let_def split: if_splits prod.splits sum.splits)

lemma query_inv: "client_inv c \<Longrightarrow> client_inv (snd (query drv sql ps c))"
  using ensureConnected_inv [of c drv]
  by (auto simp: query_def client_inv_def Let_def split: prod.splits sum.splits option.splits)

lemma run_op_inv: "client_inv c \<Longrightarrow> client_inv (run_op drv c x)"
  by (cases x) (simp_all add: connect_inv disconnect_inv query_inv)

lemma foldl_run_op_inv: "client_inv c \<Longrightarrow> client_inv (foldl (run_op drv) c ops)"
  by (induction ops arbitrary: c) (simp_all add: run_op_inv)

lemma new_client_inv: "client_inv (new_client cfg)"
  by (simp add: client_inv_def new_client_def)

lemma reachable_inv: "client_inv (run_ops drv ops (new_client cfg))"
  unfolding run_ops_def by (rule foldl_run_op_inv) (rule new_client_inv)

lemma inv_no_null_execute: "client_inv c \<Longrightarrow> \<not> executes_on_null drv c"
proof -
  assume inv: "client_inv c"
  obtain r c1 where e: "ensureConnected drv c = (r, c1)" by (cases "ensureConnected drv c")
  have i1: "client_inv c1" using ensureConnected_inv [OF inv, of drv] e by simp
  show ?thesis
  proof (cases r)
    case (Inl a)
    then show ?thesis using e by (simp add: executes_on_null_def)
  next
    case (Inr u)
    then have "isConnected c1" using e ensureConnected_connected by blast
    then show ?thesis using e Inr i1 by (simp add: executes_on_null_def client_inv_def)
  qed
qed

text \<open>
  C10. From a new client, after any sequence of \<open>connect\<close>, \<open>disconnect\<close> and \<open>query\<close>
  calls, each returning or raising as the driver decides, a client whose \<open>isConnected\<close>
  is true holds a handle, and a \<open>query\<close> issued then does not reach \<open>execute\<close> with no
  handle.
\<close>

theorem client_invariant:
  "client_inv (run_ops drv ops (new_client cfg)) \<and>
   \<not> executes_on_null drv (run_ops drv ops (new_client cfg))"
  using reachable_inv [of drv ops cfg] inv_no_null_execute by blast

text \<open>
  An instance with failing operations in it: the close call fails twice, and the client
  ends connected, holding handle 1.
\<close>

theorem client_invariant_witness:
  "client_inv (run_ops stuck_close_driver
      [OpQuery ''SELECT 1'' [], OpDisconnect, OpConnect, OpDisconnect] (new_client cfg0)) \<and>
   isConnected (run_ops stuck_close_driver
      [OpQuery ''SELECT 1'' [], OpDisconnect, OpConnect, OpDisconnect] (new_client cfg0)) \<and>
   connection (run_ops stuck_close_driver
      [OpQuery ''SELECT 1'' [], OpDisconnect, OpConnect, OpDisconnect] (new_client cfg0)) = Some 1 \<and>
   \<not> executes_on_null stuck_close_driver (run_ops stuck_close_driver
      [OpQuery ''SELECT 1'' [], OpDisconnect, OpConnect, OpDisconnect] (new_client cfg0))"
  using client_invariant [of stuck_close_driver
      "[OpQuery ''SELECT 1'' [], OpDisconnect, OpConnect, OpDisconnect]" cfg0]
  by (simp add: run_ops_def query_def ensureConnected_def connect_def disconnect_def new_client_def
      stuck_close_driver_def serving_driver_def Let_def)

section \<open>Bulk import without data\<close>

text \<open>
  C3. With \<open>data\<close> absent or an empty sequence, \<open>bulkImport\<close> raises its no-data error
  whatever the database and table names, and returns the client as it was: no driver
  call is added, and the handle and the connected flag are untouched.
\<close>

theorem bulkImport_no_data:
  "bulkImport drv db tbl None c = (Inl (Error no_data_message), c) \<and>
   bulkImport drv db tbl (Some []) c = (Inl (Error no_data_message), c)"
  by (simp add: bulkImport_def)

theorem bulkImport_no_data_witness:
  "bulkImport serving_driver ''demo'' ''t'' None (new_client cfg0)
     = (Inl (Error no_data_message), new_client cfg0) \<and>
   bulkImport serving_driver ''demo'' ''t'' (Some []) (new_client cfg0)
     = (Inl (Error no_data_message), new_client cfg0) \<and>
   calls (snd (bulkImport serving_driver ''demo'' ''t'' (Some []) (new_client cfg0))) = []"
  using bulkImport_no_data [of serving_driver "''demo''" "''t''" "new_client cfg0"]
  by (simp add: new_client_def)

section \<open>Connecting\<close>

text \<open>
  C5. When the driver's connection attempt fails, \<open>connect\<close> raises that very error
  after the one attempt, leaves the handle as it was and the connected flag false; a
  \<open>query\<close> issued next starts with a new connection attempt.
\<close>

theorem connect_failure:
  assumes "createConnection drv (calls c) (connect_options (config c)) = Inl e"
  shows "fst (connect drv c) = Inl e \<and>
         isConnected (snd (connect drv c)) = False \<and>
         connection (snd (connect drv c)) = connection c \<and>
         calls (snd (connect drv c)) = calls c @ [CreateConnection (connect_options (config c))] \<and>
         (\<exists>rest. calls (snd (query drv sql ps (snd (connect drv c))))
                  = calls (snd (connect drv c)) @ CreateConnection (connect_options (config c)) # rest)"
  using assms
  by (auto simp: connect_def query_def ensureConnected_def Let_def
      split: sum.splits prod.splits option.splits)

theorem connect_failure_witness:
  "createConnection refusing_driver (calls (new_client cfg0)) (connect_options (config (new_client cfg0)))
     = Inl (Error ''connect ECONNREFUSED'') \<and>
   fst (connect refusing_driver (new_client cfg0)) = Inl (Error ''connect ECONNREFUSED'') \<and>
   isConnected (snd (connect refusing_driver (new_client cfg0))) = False \<and>
   calls (snd (connect refusing_driver (new_client cfg0)))
     = [CreateConnection (connect_options cfg0)]"
proof -
  have h: "createConnection refusing_driver (calls (new_client cfg0))
             (connect_options (config (new_client cfg0))) = Inl (Error ''connect ECONNREFUSED'')"
    by (simp add: refusing_driver_def)
  show ?thesis
    using h connect_failure [OF h, of "''SELECT 1''" "[]"] by (simp add: new_client_def)
qed

section \<open>Querying on a new client\<close>

text \<open>
  C6. On a new client, \<open>query(sql, params)\<close> first asks the driver for a connection
  and then executes the statement on the handle it got, returning the rows and the field
  metadata; when the connection attempt fails, \<open>query\<close> raises that error with no
  \<open>execute\<close> call made; when \<open>execute\<close> fails, it raises that error; in no case does it
  reach \<open>execute\<close> with no handle.
\<close>

theorem query_fresh_client:
  "(\<forall>h rows flds.
      createConnection drv [] (connect_options cfg) = Inr h \<and>
      execute drv [CreateConnection (connect_options cfg)] h sql ps = Inr (rows, flds) \<longrightarrow>
      query drv sql ps (new_client cfg)
      = (Inr (rows, flds),
         \<lparr>config = cfg, connection = Some h, isConnected = True,
          calls = [CreateConnection (connect_options cfg), Execute h sql ps]\<rparr>)) \<and>
   (\<forall>e. createConnection drv [] (connect_options cfg) = Inl e \<longrightarrow>
      query drv sql ps (new_client cfg)
      = (Inl e,
         \<lparr>config = cfg, connection = None, isConnected = False,
          calls = [CreateConnection (connect_options cfg)]\<rparr>)) \<and>
   (\<forall>h e.
      createConnection drv [] (connect_options cfg) = Inr h \<and>
      execute drv [CreateConnection (connect_options cfg)] h sql ps = Inl e \<longrightarrow>
      query drv sql ps (new_client cfg)
      = (Inl e,
         \<lparr>config = cfg, connection = Some h, isConnected = True,
          calls = [CreateConnection (connect_options cfg), Execute h sql ps]\<rparr>)) \<and>
   \<not> executes_on_null drv (new_client cfg)"
proof -
  have "\<not> executes_on_null drv (new_client cfg)"
    by (rule inv_no_null_execute) (rule new_client_inv)
  then show ?thesis
    by (simp add: query_def ensureConnected_def connect_def new_client_def Let_def)
qed

theorem query_fresh_client_witness:
  "query serving_driver ''SELECT 1'' [] (new_client cfg0)
   = (Inr ([[(''n'', JNum 1)]], [''n'']),
      \<lparr>config = cfg0, connection = Some 1, isConnected = True,
       calls = [CreateConnection (connect_options cfg0), Execute 1 ''SELECT 1'' []]\<rparr>) \<and>
   query refusing_driver ''SELECT 1'' [] (new_client cfg0)
   = (Inl (Error ''connect ECONNREFUSED''),
      \<lparr>config = cfg0, connection = None, isConnected = False,
       calls = [CreateConnection (connect_options cfg0)]\<rparr>) \<and>
   \<not> executes_on_null refusing_driver (new_client cfg0)"
  using query_fresh_client [of serving_driver cfg0 "''SELECT 1''" "[]"]
        query_fresh_client [of refusing_driver cfg0 "''SELECT 1''" "[]"]
  by (simp add: serving_driver_def refusing_driver_def)

section \<open>Splitting strings\<close>

lemma starts_with_single: "starts_with (c # cs) [d] = (c = d)"
  by (simp add: starts_with_def)

lemma str_includes_single: "str_includes s [d] = (d \<in> set s)"
  by (induction s) (auto simp: starts_with_single)

lemma split_go_plain: "d \<notin> set s \<Longrightarrow> split_go [d] cur s = [cur @ s]"
  by (induction s arbitrary: cur) auto

lemma split_go_cut:
  "d \<notin> set s \<Longrightarrow> split_go [d] cur (s @ d # rest) = (cur @ s) # split_go [d] [] rest"
  by (induction s arbitrary: cur) auto

lemma split_go_nonempty: "split_go [d] cur s \<noteq> []"
  by (induction s arbitrary: cur) auto

lemma join_Cons: "xs \<noteq> [] \<Longrightarrow> join sep (x # xs) = x @ sep @ join sep xs"
  by (cases xs) simp_all

lemma join_split_go: "join [d] (split_go [d] cur s) = cur @ s"
  by (induction s arbitrary: cur) (simp_all add: join_Cons split_go_nonempty)

lemma split_go_cells: "c \<in> set (split_go [d] cur s) \<Longrightarrow> set c \<subseteq> set cur \<union> set s"
proof (induction s arbitrary: cur)
  case Nil
  then show ?case by simp
next
  case (Cons a s)
  show ?case
  proof (cases "a = d")
    case True
    then show ?thesis using Cons.prems Cons.IH [of "[]"] by auto
  next
    case False
    then show ?thesis using Cons.prems Cons.IH [of "cur @ [a]"] by auto
  qed
qed

lemma split_go_no_sep:
  "d \<notin> set cur \<Longrightarrow> c \<in> set (split_go [d] cur s) \<Longrightarrow> d \<notin> set c"
proof (induction s arbitrary: cur)
  case Nil
  then show ?case by simp
next
  case (Cons a s)
  show ?case
  proof (cases "a = d")
    case True
    then show ?thesis using Cons.prems Cons.IH [of "[]"] by auto
  next
    case False
    then show ?thesis using Cons.prems Cons.IH [of "cur @ [a]"] by auto
  qed
qed

lemma js_split_none: "d \<notin> set s \<Longrightarrow> js_split s [d] = [s]"
  by (simp add: js_split_def split_go_plain)

lemma js_split_cut: "d \<notin> set k \<Longrightarrow> js_split (k @ d # rest) [d] = k # js_split rest [d]"
  by (simp add: js_split_def split_go_cut)

lemma js_split_pair:
  "d \<notin> set k \<Longrightarrow> d \<notin> set v \<Longrightarrow> js_split (k @ d # v) [d] = [k, v]"
  by (simp add: js_split_cut js_split_none)

lemma js_split_head: "\<exists>others. js_split s [d] = takeWhile (\<lambda>c. c \<noteq> d) s # others"
proof (cases "d \<in> set s")
  case True
  then obtain k tail where s: "s = k @ d # tail" and k: "d \<notin> set k"
    by (auto dest: split_list_first)
  have "takeWhile (\<lambda>c. c \<noteq> d) (k @ d # tail) = k"
    using k by (induction k) auto
  then show ?thesis using s js_split_cut [OF k, of tail] by simp
next
  case False
  then have tw: "takeWhile (\<lambda>c. c \<noteq> d) s = s" by (induction s) auto
  have "js_split s [d] = takeWhile (\<lambda>c. c \<noteq> d) s # []"
    by (simp only: js_split_none [OF False] tw)
  then show ?thesis ..
qed

lemma join_js_split: "join [d] (js_split s [d]) = s"
  by (simp add: js_split_def join_split_go)

lemma split_join:
  assumes "cells \<noteq> []" "\<forall>c \<in> set cells. d \<notin> set c"
  shows "split_go [d] [] (join [d] cells) = cells"
  using assms
proof (induction cells)
  case Nil
  then show ?case by simp
next
  case (Cons x xs)
  show ?case
  proof (cases xs)
    case Nil
    then show ?thesis using Cons.prems by (simp add: split_go_plain)
  next
    case (Cons y ys)
    have "split_go [d] [] (x @ d # join [d] (y # ys)) = ([] @ x) # split_go [d] [] (join [d] (y # ys))"
      by (rule split_go_cut) (use Cons.prems in simp)
    then show ?thesis using Cons Cons.IH Cons.prems by simp
  qed
qed

lemma split_lines:
  assumes "\<forall>l \<in> set ls. n \<notin> set l"
  shows "split_go [n] [] (concat (map (\<lambda>l. l @ [n]) ls)) = ls @ [[]]"
  using assms
proof (induction ls)
  case Nil
  then show ?case by simp
next
  case (Cons l ls)
  have "split_go [n] [] (l @ n # concat (map (\<lambda>l. l @ [n]) ls))
        = ([] @ l) # split_go [n] [] (concat (map (\<lambda>l. l @ [n]) ls))"
    by (rule split_go_cut) (use Cons.prems in simp)
  then show ?case using Cons by simp
qed

lemma set_join_subset: "set (join sep xs) \<subseteq> set sep \<union> \<Union> (set ` set xs)"
  by (induction sep xs rule: join.induct) auto

lemma map_map_id: "(\<And>x. x \<in> set xs \<Longrightarrow> f (g x) = x) \<Longrightarrow> map f (map g xs) = xs"
  by (induction xs) auto

section \<open>What \<open>exportToCSV\<close> writes\<close>

lemma set_object_keys: "set (object_keys r) = fst ` set r"
  by (auto simp: object_keys_def Let_def)

lemma get_prop_own: "k \<in> fst ` set r \<Longrightarrow> map_of r k = Some (get_prop r k)"
  by (cases "map_of r k") (auto simp: get_prop_def map_of_eq_None_iff)

lemma get_prop_value: "k \<in> fst ` set r \<Longrightarrow> get_prop r k \<in> snd ` set r"
  using get_prop_own [of k r] by (auto dest!: map_of_SomeD intro: rev_image_eqI)

lemma cell_text_ok: "cell_ok (get_prop r h) \<Longrightarrow> cell_text r h = to_String (get_prop r h)"
  by (cases "get_prop r h") (auto simp: cell_text_def js_or_def Let_def)

lemma foldl_append_lines: "foldl (\<lambda>acc x. acc @ f x) init xs = init @ concat (map f xs)"
  by (induction xs arbitrary: init) simp_all

lemma exportToCSV_unfold:
  "exportToCSV (Some (first # rest)) delimiter =
     join delimiter (object_keys first) @ [CHR 0x0A] @
     concat (map (\<lambda>item. join delimiter (map (csv_cell delimiter item) (object_keys first)) @ [CHR 0x0A])
                 (first # rest))"
  by (simp add: exportToCSV_def Let_def foldl_append_lines del: foldl_Cons)

lemma csv_cell_emit: "csv_cell [d] item h = emit d (cell_text item h)"
  by (simp add: csv_cell_def Let_def emit_def plain_def str_includes_single)

lemma emit_plain: "plain d s \<Longrightarrow> emit d s = s"
  by (simp add: emit_def)

lemma set_double_quotes: "set (double_quotes s) = set s"
  by (induction s) (auto simp: double_quotes_def)

section \<open>The reference splitter on emitted text\<close>

lemma ref_plain_run:
  "plain d s \<Longrightarrow> ref_split_go d False cell line (s @ rest) = ref_split_go d False (cell @ s) line rest"
  by (induction s arbitrary: cell) (auto simp: plain_def)

lemma ref_quoted_run:
  "rest = [] \<or> hd rest \<noteq> CHR ''\"'' \<Longrightarrow>
   ref_split_go d True cell line (double_quotes s @ CHR ''\"'' # rest)
   = ref_split_go d False (cell @ s) line rest"
proof (induction s arbitrary: cell)
  case Nil
  then show ?case by (cases rest) (auto simp: double_quotes_def)
next
  case (Cons c s)
  then show ?case by (auto simp: double_quotes_def)
qed

lemma ref_emit:
  assumes "rest = [] \<or> hd rest \<noteq> CHR ''\"''"
  shows "ref_split_go d False cell line (emit d s @ rest) = ref_split_go d False (cell @ s) line rest"
proof (cases "plain d s")
  case True
  then show ?thesis by (simp add: emit_def ref_plain_run)
next
  case False
  then show ?thesis using ref_quoted_run [OF assms] by (simp add: emit_def)
qed

lemma ref_line:
  assumes "d \<noteq> CHR ''\"''" "d \<noteq> CHR 0x0A" "cells \<noteq> []"
  shows "ref_split_go d False [] line (join [d] (map (emit d) cells) @ CHR 0x0A # rest)
         = (line @ cells) # ref_split_go d False [] [] rest"
  using assms(3)
proof (induction cells arbitrary: line)
  case Nil
  then show ?case by simp
next
  case (Cons x xs)
  show ?case
  proof (cases xs)
    case Nil
    have "ref_split_go d False [] line (emit d x @ CHR 0x0A # rest)
          = ref_split_go d False ([] @ x) line (CHR 0x0A # rest)"
      by (rule ref_emit) simp
    then show ?thesis using assms(1,2) Nil by simp
  next
    case (Cons y ys)
    let ?tail = "join [d] (map (emit d) (y # ys)) @ CHR 0x0A # rest"
    have "ref_split_go d False [] line (emit d x @ d # ?tail)
          = ref_split_go d False ([] @ x) line (d # ?tail)"
      by (rule ref_emit) (use assms(1) in simp)
    also have "\<dots> = ref_split_go d False [] (line @ [x]) ?tail"
      using assms(1,2) by simp
    also have "\<dots> = ((line @ [x]) @ y # ys) # ref_split_go d False [] [] rest"
      using Cons.IH [of "line @ [x]"] Cons by simp
    finally show ?thesis using Cons by simp
  qed
qed

lemma ref_lines:
  assumes "d \<noteq> CHR ''\"''" "d \<noteq> CHR 0x0A" "\<forall>cells \<in> set rows. cells \<noteq> []"
  shows "ref_split_go d False [] []
           (concat (map (\<lambda>cells. join [d] (map (emit d) cells) @ [CHR 0x0A]) rows)) = rows"
  using assms(3)
proof (induction rows)
  case Nil
  then show ?case by simp
next
  case (Cons r rows)
  then show ?case using ref_line [OF assms(1,2), of r "[]"] by simp
qed

text \<open>A header line with no double quote and no newline in it is read as one line.\<close>

lemma ref_header_line:
  assumes "d \<noteq> CHR 0x0A" "CHR ''\"'' \<notin> set t" "CHR 0x0A \<notin> set t"
  shows "\<exists>l. ref_split_go d False cell line (t @ CHR 0x0A # rest)
             = l # ref_split_go d False [] [] rest"
  using assms(2,3)
proof (induction t arbitrary: cell line)
  case Nil
  then show ?case using assms(1) by simp
next
  case (Cons c t)
  then have c: "c \<noteq> CHR ''\"''" "c \<noteq> CHR 0x0A" and t: "CHR ''\"'' \<notin> set t" "CHR 0x0A \<notin> set t"
    by auto
  show ?case
  proof (cases "c = d")
    case True
    then show ?thesis using c Cons.IH [OF t, of "[]" "line @ [cell]"] by simp
  next
    case False
    then show ?thesis using c Cons.IH [OF t, of "cell @ [c]" line] by simp
  qed
qed

lemma row_recovered_by_header:
  assumes "set (object_keys r) = set hs"
  shows "row_recovered hs (map (\<lambda>h. to_String (get_prop r h)) hs) r"
proof -
  have "map_of (zip hs (map (\<lambda>h. to_String (get_prop r h)) hs)) k
        = map_option to_String (map_of r k)" if "k \<in> set hs" for k
  proof -
    have "k \<in> fst ` set r" using that assms by (simp add: set_object_keys)
    then have "map_of r k = Some (get_prop r k)" by (rule get_prop_own)
    then show ?thesis using that by (simp add: map_of_zip_map)
  qed
  then show ?thesis using assms by (simp add: row_recovered_def)
qed

lemmas csv_eval =
  csv_roundtrip_claim_def row_recovered_def ref_split_def exportToCSV_def object_keys_def
  is_array_index_def is_digit_def nat_of_digits_def digit_value_def csv_cell_def cell_text_def
  get_prop_def prototype_member_def js_or_def starts_with_def Let_def string_of_int_def
  string_of_nat.simps digit_char_def

text \<open>
  C1, as the code has it. The property as worded fails: the header is the first row's
  keys, so a later row's value under another key is never written; a cell holding \<open>0\<close>
  (or \<open>false\<close>) is written empty; a column name is written as it is, so a newline or a
  double quote in it breaks the line structure; a delimiter that is the newline or the
  double quote leaves nothing to tell cells from lines or from quotes; and a row with no
  key at all is read back as one empty cell.
\<close>

theorem exportToCSV_roundtrip_counterexample:
  "ref_split (CHR '','') (exportToCSV (Some [[(''a'', JStr ''x'')], [(''b'', JStr ''y'')]]) '','')
     = [[''a''], [''x''], ['''']] \<and>
   \<not> csv_roundtrip_claim (CHR '','') [[(''a'', JStr ''x'')], [(''b'', JStr ''y'')]] \<and>
   ref_split (CHR '','') (exportToCSV (Some [[(''n'', JNum 0)]]) '','') = [[''n''], ['''']] \<and>
   \<not> csv_roundtrip_claim (CHR '','') [[(''n'', JNum 0)]] \<and>
   ref_split (CHR '','') (exportToCSV (Some [[(''a\<newline>b'', JStr ''x'')]]) '','')
     = [[''a''], [''b''], [''x'']] \<and>
   \<not> csv_roundtrip_claim (CHR '','') [[(''a\<newline>b'', JStr ''x'')]] \<and>
   ref_split (CHR '','') (exportToCSV (Some [[(''a\"b'', JStr ''x'')]]) '','')
     = [[''ab\<newline>x\<newline>'']] \<and>
   \<not> csv_roundtrip_claim (CHR '','') [[(''a\"b'', JStr ''x'')]] \<and>
   exportToCSV (Some [[(''a'', JStr ''x''), (''b'', JStr ''y'')]]) [CHR 0x0A]
     = ''a\<newline>b\<newline>x\<newline>y\<newline>'' \<and>
   \<not> csv_roundtrip_claim (CHR 0x0A) [[(''a'', JStr ''x''), (''b'', JStr ''y'')]] \<and>
   ref_split (CHR ''\"'') (exportToCSV (Some [[(''a'', JStr ''x''), (''b'', JStr ''y'')]]) ''\"'')
     = [[''ab\<newline>xy'']] \<and>
   \<not> csv_roundtrip_claim (CHR ''\"'') [[(''a'', JStr ''x''), (''b'', JStr ''y'')]] \<and>
   ref_split (CHR '','') (exportToCSV (Some [[]]) '','') = [[''''], ['''']] \<and>
   \<not> csv_roundtrip_claim (CHR '','') [[]]"
  by (simp add: csv_eval)

text \<open>
  C1 (amended). Let the delimiter be one character, neither the double quote nor the
  newline; let the first row have at least one key, with no double quote and no newline
  in a column name; let every row have exactly the keys of the first row, in any order;
  and let every cell be a string or a value that is not falsy. Then the round-trip
  property holds: the lines the reference splitter reads after the header line recover
  the rows one by one, each line holding, column by column, the string conversion of
  the row's cell under that column name, whatever delimiters, double quotes and newlines
  the cells contain.
\<close>

theorem exportToCSV_roundtrip:
  assumes d: "d \<noteq> CHR ''\"''" "d \<noteq> CHR 0x0A"
    and keys: "object_keys first \<noteq> []"
      "\<forall>h \<in> set (object_keys first). CHR ''\"'' \<notin> set h \<and> CHR 0x0A \<notin> set h"
    and same: "\<forall>r \<in> set rest. set (object_keys r) = set (object_keys first)"
    and vals: "\<forall>r \<in> set (first # rest). \<forall>v \<in> snd ` set r. cell_ok v"
  shows "csv_roundtrip_claim d (first # rest) \<and>
         tl (ref_split d (exportToCSV (Some (first # rest)) [d]))
         = map (\<lambda>r. map (\<lambda>h. to_String (get_prop r h)) (object_keys first)) (first # rest)"
proof -
  let ?hs = "object_keys first"
  let ?rows = "first # rest"
  let ?texts = "map (\<lambda>r. map (\<lambda>h. to_String (get_prop r h)) ?hs) ?rows"
  let ?body = "concat (map (\<lambda>cs. join [d] (map (emit d) cs) @ [CHR 0x0A]) ?texts)"
  have same': "set (object_keys r) = set ?hs" if "r \<in> set ?rows" for r
    using that same by auto
  have cells: "map (csv_cell [d] r) ?hs = map (emit d) (map (\<lambda>h. to_String (get_prop r h)) ?hs)"
    if r: "r \<in> set ?rows" for r
  proof -
    have "cell_text r h = to_String (get_prop r h)" if h: "h \<in> set ?hs" for h
    proof -
      have "h \<in> fst ` set r" using h same' [OF r] by (simp add: set_object_keys)
      then have "cell_ok (get_prop r h)" using get_prop_value vals r by blast
      then show ?thesis by (rule cell_text_ok)
    qed
    then show ?thesis by (simp add: csv_cell_emit)
  qed
  have body: "concat (map (\<lambda>item. join [d] (map (csv_cell [d] item) ?hs) @ [CHR 0x0A]) ?rows) = ?body"
    using cells by (simp add: comp_def cong: map_cong)
  have nonempty: "\<forall>cs \<in> set ?texts. cs \<noteq> []"
    using keys(1) by auto
  have hdr: "CHR ''\"'' \<notin> set (join [d] ?hs) \<and> CHR 0x0A \<notin> set (join [d] ?hs)"
    using set_join_subset [of "[d]" ?hs] keys(2) d by auto
  obtain l where "ref_split_go d False [] [] (join [d] ?hs @ CHR 0x0A # ?body)
                  = l # ref_split_go d False [] [] ?body"
    using ref_header_line [OF d(2), of "join [d] ?hs" "[]" "[]" ?body] hdr by blast
  then have "tl (ref_split d (exportToCSV (Some ?rows) [d])) = ref_split_go d False [] [] ?body"
    unfolding ref_split_def exportToCSV_unfold body by simp
  also have "\<dots> = ?texts"
    by (rule ref_lines [OF d nonempty])
  finally have lines: "tl (ref_split d (exportToCSV (Some ?rows) [d])) = ?texts" .
  have "list_all2 (row_recovered ?hs) ?texts ?rows"
    unfolding list_all2_map1 by (rule list_all2_same [THEN iffD2]) (use same' row_recovered_by_header in blast)
  then have "csv_roundtrip_claim d ?rows"
    by (simp add: csv_roundtrip_claim_def lines)
  then show ?thesis using lines by simp
qed

theorem exportToCSV_roundtrip_witness:
  "csv_roundtrip_claim (CHR '','')
     [[(''b'', JStr ''x,1''), (''1'', JNum 7)],
      [(''1'', JStr ''say \"hi\"\<newline>bye''), (''b'', JStr [])]] \<and>
   tl (ref_split (CHR '','')
     (exportToCSV (Some [[(''b'', JStr ''x,1''), (''1'', JNum 7)],
                         [(''1'', JStr ''say \"hi\"\<newline>bye''), (''b'', JStr [])]]) '',''))
   = [[''7'', ''x,1''], [''say \"hi\"\<newline>bye'', '''']]"
proof -
  let ?r1 = "[(''b'', JStr ''x,1''), (''1'', JNum 7)]"
  let ?r2 = "[(''1'', JStr ''say \"hi\"\<newline>bye''), (''b'', JStr [])]"
  have keys1: "object_keys ?r1 = [''1'', ''b'']" and keys2: "object_keys ?r2 = [''1'', ''b'']"
    by (simp_all add: object_keys_def is_array_index_def is_digit_def nat_of_digits_def digit_value_def)
  have d: "CHR '','' \<noteq> CHR ''\"''" "CHR '','' \<noteq> CHR 0x0A" by simp_all
  have keys: "object_keys ?r1 \<noteq> []"
    "\<forall>h \<in> set (object_keys ?r1). CHR ''\"'' \<notin> set h \<and> CHR 0x0A \<notin> set h"
    by (simp_all add: keys1)
  have same: "\<forall>r \<in> set [?r2]. set (object_keys r) = set (object_keys ?r1)"
    by (simp add: keys1 keys2)
  have vals: "\<forall>r \<in> set (?r1 # [?r2]). \<forall>v \<in> snd ` set r. cell_ok v"
    by simp
  show ?thesis
    using exportToCSV_roundtrip [OF d keys same vals]
    by (simp add: keys1 get_prop_def string_of_int_def string_of_nat.simps digit_char_def)
qed

section \<open>\<open>parseCSV\<close> on emitted text\<close>

text \<open>
  C2, as the code has it. \<open>parseCSV\<close> cuts at every newline and every delimiter and
  knows nothing of quotes: the cell \<open>x,y\<close>, emitted as \<open>"x,y"\<close>, comes back as the two
  cells \<open>"x\<close> and \<open>y"\<close>.
\<close>

theorem parseCSV_quoting_counterexample:
  "exportToCSV (Some [[(''a'', JStr ''x,y'')]]) '','' = ''a\<newline>\"x,y\"\<newline>'' \<and>
   parseCSV (exportToCSV (Some [[(''a'', JStr ''x,y'')]]) '','') '',''
     = [[''a''], [''\"x'', ''y\"''], ['''']]"
  by (simp add: parseCSV_def js_split_def double_quotes_def csv_eval)

lemma js_split_cells: "c \<in> set (js_split s [d]) \<Longrightarrow> d \<notin> set c \<and> set c \<subseteq> set s"
  using split_go_no_sep [of d "[]" c s] split_go_cells [of c d "[]" s]
  by (simp add: js_split_def)

lemma parseCSV_cells:
  assumes "line \<in> set (parseCSV s [d])" "c \<in> set line"
  shows "d \<notin> set c \<and> CHR 0x0A \<notin> set c"
proof -
  obtain l where l: "l \<in> set (js_split s [CHR 0x0A])" and line: "line = js_split l [d]"
    using assms(1) by (auto simp: parseCSV_def)
  have "CHR 0x0A \<notin> set l" using js_split_cells [OF l] by simp
  moreover have "d \<notin> set c \<and> set c \<subseteq> set l" using js_split_cells assms(2) line by blast
  ultimately show ?thesis by auto
qed

lemma parseCSV_rejoin: "join [CHR 0x0A] (map (join [d]) (parseCSV s [d])) = s"
proof -
  have "map (join [d]) (parseCSV s [d]) = js_split s [CHR 0x0A]"
    by (simp add: parseCSV_def comp_def join_js_split)
  then show ?thesis by (simp add: join_js_split)
qed

text \<open>A text as written, when it holds neither the delimiter nor a newline.\<close>

lemma emit_no_sep:
  assumes "d \<notin> set t" "CHR 0x0A \<notin> set t"
  shows "emit d t = (if CHR ''\"'' \<in> set t then ''\"'' @ double_quotes t @ ''\"'' else t)"
    and "d \<notin> set (emit d t)" and "CHR 0x0A \<notin> set (emit d t)"
  using assms by (auto simp: emit_def plain_def set_double_quotes)

text \<open>
  C2 (amended). \<open>parseCSV\<close> does not interpret quotes. For every text and every
  one-character delimiter, no cell it returns holds the delimiter or a newline, and its
  cells joined by the delimiter, its lines joined by newlines, are the text again,
  every double quote included. On the output of \<open>exportToCSV\<close>, with a one-character
  delimiter other than the newline, at least one column, and neither the delimiter nor
  a newline in any column name or cell text: \<open>parseCSV\<close> returns the header row, then
  for every row its cells as they were written (the cell text itself when it has no
  double quote, else the text between double quotes with its double quotes doubled),
  then one row holding a single empty cell.
\<close>

theorem parseCSV_no_quoting:
  "(\<forall>line \<in> set (parseCSV s [d]). \<forall>c \<in> set line. d \<notin> set c \<and> CHR 0x0A \<notin> set c) \<and>
   join [CHR 0x0A] (map (join [d]) (parseCSV s [d])) = s \<and>
   (d \<noteq> CHR 0x0A \<and> object_keys first \<noteq> [] \<and>
    (\<forall>h \<in> set (object_keys first). d \<notin> set h \<and> CHR 0x0A \<notin> set h) \<and>
    (\<forall>r \<in> set (first # rest). \<forall>h \<in> set (object_keys first).
        d \<notin> set (cell_text r h) \<and> CHR 0x0A \<notin> set (cell_text r h)) \<longrightarrow>
    parseCSV (exportToCSV (Some (first # rest)) [d]) [d]
    = object_keys first
      # map (\<lambda>r. map (\<lambda>h. if CHR ''\"'' \<in> set (cell_text r h)
                             then ''\"'' @ double_quotes (cell_text r h) @ ''\"''
                             else cell_text r h)
                      (object_keys first))
            (first # rest)
      @ [['''']])"
proof -
  let ?n = "CHR 0x0A"
  let ?hs = "object_keys first"
  let ?rows = "first # rest"
  define q where "q = (\<lambda>r h. if CHR ''\"'' \<in> set (cell_text r h)
                  then ''\"'' @ double_quotes (cell_text r h) @ ''\"''
                  else cell_text r h)"
  let ?cells = "?hs # map (\<lambda>r. map (q r) ?hs) ?rows"
  have p: "parseCSV (exportToCSV (Some ?rows) [d]) [d] = ?cells @ [[[]]]"
    if d: "d \<noteq> ?n" and ne: "?hs \<noteq> []"
      and keys: "\<forall>h \<in> set ?hs. d \<notin> set h \<and> ?n \<notin> set h"
      and vals: "\<forall>r \<in> set ?rows. \<forall>h \<in> set ?hs. d \<notin> set (cell_text r h) \<and> ?n \<notin> set (cell_text r h)"
  proof -
    have cell: "csv_cell [d] r h = q r h \<and> d \<notin> set (q r h) \<and> ?n \<notin> set (q r h)"
      if "r \<in> set ?rows" "h \<in> set ?hs" for r h
    proof -
      have t: "d \<notin> set (cell_text r h)" "?n \<notin> set (cell_text r h)" using vals that by auto
      show ?thesis
        using emit_no_sep [OF t] unfolding q_def by (simp add: csv_cell_emit)
    qed
    have rowcells: "map (csv_cell [d] r) ?hs = map (q r) ?hs" if "r \<in> set ?rows" for r
      using cell that by simp
    have csv: "exportToCSV (Some ?rows) [d] = concat (map (\<lambda>l. l @ [?n]) (map (join [d]) ?cells))"
      unfolding exportToCSV_unfold using rowcells by (simp add: comp_def cong: map_cong)
    have clean: "cs \<noteq> [] \<and> (\<forall>c \<in> set cs. d \<notin> set c \<and> ?n \<notin> set c)" if mem: "cs \<in> set ?cells" for cs
    proof -
      consider "cs = ?hs" | r where "r \<in> set ?rows" "cs = map (q r) ?hs" using mem by auto
      then show ?thesis
      proof cases
        case 1
        then show ?thesis using ne keys by simp
      next
        case 2
        have "d \<notin> set (q r h) \<and> ?n \<notin> set (q r h)" if "h \<in> set ?hs" for h
          using cell [OF 2(1) that] by simp
        then show ?thesis using ne 2(2) by simp
      qed
    qed
    have nl: "\<forall>l \<in> set (map (join [d]) ?cells). ?n \<notin> set l"
    proof
      fix l assume "l \<in> set (map (join [d]) ?cells)"
      then obtain cs where cs: "cs \<in> set ?cells" and l: "l = join [d] cs" by auto
      have "\<forall>c \<in> set cs. ?n \<notin> set c" using clean [OF cs] by blast
      then show "?n \<notin> set l" using set_join_subset [of "[d]" cs] d l by auto
    qed
    have lines: "js_split (exportToCSV (Some ?rows) [d]) [?n] = map (join [d]) ?cells @ [[]]"
      unfolding csv js_split_def using split_lines [OF nl] by simp
    have each: "js_split (join [d] cs) [d] = cs" if "cs \<in> set ?cells" for cs
    proof -
      have "split_go [d] [] (join [d] cs) = cs"
        by (rule split_join) (use clean [OF that] in blast)+
      then show ?thesis by (simp add: js_split_def)
    qed
    have "map (\<lambda>line. js_split line [d]) (map (join [d]) ?cells) = ?cells"
      by (rule map_map_id) (rule each)
    then show ?thesis
      unfolding parseCSV_def Let_def lines by (simp add: js_split_def)
  qed
  have n1: "\<forall>line \<in> set (parseCSV s [d]). \<forall>c \<in> set line. d \<notin> set c \<and> ?n \<notin> set c"
    using parseCSV_cells by blast
  have n2: "join [?n] (map (join [d]) (parseCSV s [d])) = s"
    by (rule parseCSV_rejoin)
  have p': "d \<noteq> ?n \<and> ?hs \<noteq> [] \<and>
    (\<forall>h \<in> set ?hs. d \<notin> set h \<and> ?n \<notin> set h) \<and>
    (\<forall>r \<in> set ?rows. \<forall>h \<in> set ?hs. d \<notin> set (cell_text r h) \<and> ?n \<notin> set (cell_text r h)) \<longrightarrow>
    parseCSV (exportToCSV (Some ?rows) [d]) [d] = ?hs # map (\<lambda>r. map (q r) ?hs) ?rows @ [[[]]]"
    using p by simp
  show ?thesis
    using n1 n2 p' unfolding q_def by (intro conjI)
qed

theorem parseCSV_no_quoting_witness:
  "parseCSV (exportToCSV (Some [[(''id'', JNum 12), (''name'', JStr ''ann'')],
                                [(''id'', JNum 0), (''name'', JStr ''say \"hi\"'')]]) '';'') '';''
   = [[''id'', ''name''], [''12'', ''ann''], ['''', ''\"say \"\"hi\"\"\"''], ['''']] \<and>
   join ''\<newline>'' (map (join '';'') (parseCSV ''a;\"b\<newline>c\";d'' '';'')) = ''a;\"b\<newline>c\";d''"
proof -
  let ?r1 = "[(''id'', JNum 12), (''name'', JStr ''ann'')]"
  let ?r2 = "[(''id'', JNum 0), (''name'', JStr ''say \"hi\"'')]"
  have keys1: "object_keys ?r1 = [''id'', ''name'']"
    by (simp add: object_keys_def is_array_index_def is_digit_def)
  have texts: "cell_text ?r1 ''id'' = ''12''" "cell_text ?r1 ''name'' = ''ann''"
    "cell_text ?r2 ''id'' = []" "cell_text ?r2 ''name'' = ''say \"hi\"''"
    by (simp_all add: cell_text_def get_prop_def js_or_def string_of_int_def string_of_nat.simps
        digit_char_def)
  have hyp: "CHR '';'' \<noteq> CHR 0x0A \<and> object_keys ?r1 \<noteq> [] \<and>
    (\<forall>h \<in> set (object_keys ?r1). CHR '';'' \<notin> set h \<and> CHR 0x0A \<notin> set h) \<and>
    (\<forall>r \<in> set (?r1 # [?r2]). \<forall>h \<in> set (object_keys ?r1).
        CHR '';'' \<notin> set (cell_text r h) \<and> CHR 0x0A \<notin> set (cell_text r h))"
    by (simp add: keys1 texts)
  have "parseCSV (exportToCSV (Some (?r1 # [?r2])) '';'') '';''
    = object_keys ?r1
      # map (\<lambda>r. map (\<lambda>h. if CHR ''\"'' \<in> set (cell_text r h)
                             then ''\"'' @ double_quotes (cell_text r h) @ ''\"''
                             else cell_text r h)
                      (object_keys ?r1))
            (?r1 # [?r2])
      @ [['''']]"
    using parseCSV_no_quoting [of "''a;\"b\<newline>c\";d''" "CHR '';''" ?r1 "[?r2]"] hyp by blast
  then have a: "parseCSV (exportToCSV (Some (?r1 # [?r2])) '';'') '';''
     = [[''id'', ''name''], [''12'', ''ann''], ['''', ''\"say \"\"hi\"\"\"''], ['''']]"
    by (simp add: keys1 texts double_quotes_def)
  have b: "join ''\<newline>'' (map (join '';'') (parseCSV ''a;\"b\<newline>c\";d'' '';'')) = ''a;\"b\<newline>c\";d''"
    using parseCSV_no_quoting [of "''a;\"b\<newline>c\";d''" "CHR '';''" ?r1 "[?r2]"] by blast
  show ?thesis using a b by simp
qed

section \<open>\<open>parseArgs\<close>\<close>

lemma map_of_set_param_same:
  "k \<noteq> ''__proto__'' \<Longrightarrow> map_of (set_param ps k v) k = Some v"
  by (simp add: set_param_def update_conv')

lemma map_of_set_param_other:
  "k' \<noteq> k \<Longrightarrow> map_of (set_param ps k' v) k = map_of ps k"
  by (simp add: set_param_def update_conv')

lemma parseArgs_append:
  "parseArgs (pre @ toks) = fst (foldl parse_step (foldl parse_step ([], None) pre) toks)"
  by (simp add: parseArgs_def)

lemma starts_with_dash2: "starts_with (''-'' @ k) ''--'' = starts_with k ''-''"
  by (cases k) (simp_all add: starts_with_def)

lemma not_dash_not_dash2: "\<not> starts_with t ''-'' \<Longrightarrow> \<not> starts_with t ''--''"
  by (cases t) (auto simp: starts_with_def)

lemma step_long_value:
  assumes "CHR ''='' \<notin> set k" "CHR ''='' \<notin> set v"
  shows "parse_step st (''--'' @ k @ ''='' @ v) = (set_param (fst st) k (AStr v), None)"
  using js_split_pair [OF assms]
  by (simp add: parse_step_def starts_with_def)

lemma step_long_flag:
  assumes "CHR ''='' \<notin> set k"
  shows "parse_step st (''--'' @ k) = (set_param (fst st) k ATrue, Some k)"
  using js_split_none [OF assms]
  by (simp add: parse_step_def starts_with_def)

lemma step_short_flag:
  assumes "\<not> starts_with k ''-''"
  shows "parse_step st (''-'' @ k) = (set_param (fst st) k ATrue, Some k)"
  using assms starts_with_dash2 [of k]
  by (simp add: parse_step_def) (simp add: starts_with_def)

lemma step_value:
  assumes "\<not> starts_with t ''-''" "k \<noteq> []"
  shows "parse_step (ps, Some k) t = (set_param ps k (AStr t), None)"
  using assms not_dash_not_dash2 [OF assms(1)]
  by (simp add: parse_step_def)

text \<open>A flag token that names another key leaves \<open>k\<close> alone, and \<open>k\<close> is not pending after it.\<close>

lemma step_flag_other:
  assumes f: "starts_with f ''-''" "flag_key f \<noteq> Some k"
  shows "map_of (fst (parse_step st f)) k = map_of (fst st) k \<and> snd (parse_step st f) \<noteq> Some k"
proof (cases "starts_with f ''--''")
  case True
  obtain others where sp: "js_split (drop 2 f) ''='' = takeWhile (\<lambda>c. c \<noteq> CHR ''='') (drop 2 f) # others"
    using js_split_head [of "drop 2 f" "CHR ''=''"] by blast
  have key: "takeWhile (\<lambda>c. c \<noteq> CHR ''='') (drop 2 f) \<noteq> k"
    using f(2) True by (simp add: flag_key_def)
  show ?thesis
    using True sp key
    by (cases others) (auto simp: parse_step_def Let_def map_of_set_param_other)
next
  case False
  then have "drop 1 f \<noteq> k" using f by (simp add: flag_key_def)
  then show ?thesis using False f(1)
    by (auto simp: parse_step_def Let_def map_of_set_param_other)
qed

text \<open>A token that is no flag binds the pending key only.\<close>

lemma step_value_other:
  assumes "\<not> starts_with f ''-''" "snd st \<noteq> Some k"
  shows "map_of (fst (parse_step st f)) k = map_of (fst st) k \<and> snd (parse_step st f) \<noteq> Some k"
  using assms not_dash_not_dash2 [OF assms(1)]
  by (cases st; cases "snd st") (auto simp: parse_step_def Let_def map_of_set_param_other)

lemma fold_other:
  assumes "snd st \<noteq> Some k" "\<forall>g \<in> set post. flag_key g \<noteq> Some k"
  shows "map_of (fst (foldl parse_step st post)) k = map_of (fst st) k"
  using assms
proof (induction post arbitrary: st)
  case Nil
  then show ?case by simp
next
  case (Cons g post)
  have step: "map_of (fst (parse_step st g)) k = map_of (fst st) k \<and> snd (parse_step st g) \<noteq> Some k"
  proof (cases "starts_with g ''-''")
    case True
    then show ?thesis using step_flag_other Cons.prems(2) by simp
  next
    case False
    then show ?thesis using step_value_other Cons.prems(1) by simp
  qed
  then show ?case using Cons.IH [of "parse_step st g"] Cons.prems(2) by simp
qed

text \<open>After a flag token for \<open>k\<close>, with no value token next.\<close>

lemma fold_after_flag:
  assumes "post = [] \<or> starts_with (hd post) ''-''" "\<forall>g \<in> set post. flag_key g \<noteq> Some k"
  shows "map_of (fst (foldl parse_step (ps, Some k) post)) k = map_of ps k"
proof (cases post)
  case Nil
  then show ?thesis by simp
next
  case (Cons f post')
  then have f: "starts_with f ''-''" "flag_key f \<noteq> Some k" using assms by auto
  have "map_of (fst (foldl parse_step (parse_step (ps, Some k) f) post')) k
        = map_of (fst (parse_step (ps, Some k) f)) k"
    by (rule fold_other) (use step_flag_other [OF f, of "(ps, Some k)"] assms(2) Cons in auto)
  then show ?thesis using Cons step_flag_other [OF f, of "(ps, Some k)"] by simp
qed

text \<open>
  C8, as the code has it. A flag token with the empty key (\<open>-\<close>, \<open>--\<close>) is bound to
  \<open>true\<close> and the token after it is dropped, since \<open>currentKey\<close> is tested for
  truth; of \<open>--a=b=c\<close> only the text up to the second \<open>=\<close> is bound; and the key
  \<open>__proto__\<close> is not bound at all.
\<close>

theorem parseArgs_binding_counterexample:
  "parseArgs [''-'', ''x''] = [([], ATrue)] \<and>
   parseArgs [''--a=b=c''] = [(''a'', AStr ''b'')] \<and>
   parseArgs [''--__proto__=x''] = []"
  by (simp add: parseArgs_def parse_step_def starts_with_def js_split_def set_param_def Let_def)

text \<open>
  C8 (amended). \<open>parseArgs(["--a=1", "--b", "2", "-c"])\<close> is \<open>{a: "1", b: "2", c: true}\<close>.
  In general, in every argument vector, whatever tokens \<open>pre\<close> come before and
  whatever tokens \<open>post\<close> come after, as long as no flag token of \<open>post\<close> names the
  key \<open>k\<close> again: a token \<open>--k=v\<close> with no \<open>=\<close> in \<open>k\<close> or in \<open>v\<close> binds \<open>k\<close> to
  \<open>v\<close>; a token \<open>--k\<close> (no \<open>=\<close> in \<open>k\<close>) or \<open>-k\<close> (\<open>k\<close> not starting with \<open>-\<close>)
  with a non-empty \<open>k\<close>, followed by a token \<open>t\<close> that does not start with \<open>-\<close>, binds
  \<open>k\<close> to \<open>t\<close>; and such a flag token, with \<open>k\<close> empty or not, binds \<open>k\<close> to \<open>true\<close>
  when it is the last token or the token after it starts with \<open>-\<close>. The key
  \<open>__proto__\<close> is never bound and is left out.
\<close>

theorem parseArgs_binding:
  "parseArgs [''--a=1'', ''--b'', ''2'', ''-c''] = [(''a'', AStr ''1''), (''b'', AStr ''2''), (''c'', ATrue)] \<and>
   (CHR ''='' \<notin> set k \<and> CHR ''='' \<notin> set v \<and> k \<noteq> ''__proto__'' \<and>
    (\<forall>g \<in> set post. flag_key g \<noteq> Some k) \<longrightarrow>
      map_of (parseArgs (pre @ (''--'' @ k @ ''='' @ v) # post)) k = Some (AStr v)) \<and>
   (CHR ''='' \<notin> set k \<and> k \<noteq> [] \<and> k \<noteq> ''__proto__'' \<and> \<not> starts_with t ''-'' \<and>
    (\<forall>g \<in> set post. flag_key g \<noteq> Some k) \<longrightarrow>
      map_of (parseArgs (pre @ (''--'' @ k) # t # post)) k = Some (AStr t)) \<and>
   (\<not> starts_with k ''-'' \<and> k \<noteq> [] \<and> k \<noteq> ''__proto__'' \<and> \<not> starts_with t ''-'' \<and>
    (\<forall>g \<in> set post. flag_key g \<noteq> Some k) \<longrightarrow>
      map_of (parseArgs (pre @ (''-'' @ k) # t # post)) k = Some (AStr t)) \<and>
   (CHR ''='' \<notin> set k \<and> k \<noteq> ''__proto__'' \<and> (post = [] \<or> starts_with (hd post) ''-'') \<and>
    (\<forall>g \<in> set post. flag_key g \<noteq> Some k) \<longrightarrow>
      map_of (parseArgs (pre @ (''--'' @ k) # post)) k = Some ATrue) \<and>
   (\<not> starts_with k ''-'' \<and> k \<noteq> ''__proto__'' \<and> (post = [] \<or> starts_with (hd post) ''-'') \<and>
    (\<forall>g \<in> set post. flag_key g \<noteq> Some k) \<longrightarrow>
      map_of (parseArgs (pre @ (''-'' @ k) # post)) k = Some ATrue)"
proof -
  obtain ps cur where st: "foldl parse_step ([], None) pre = (ps, cur)"
    by (cases "foldl parse_step ([], None) pre")
  have ex: "parseArgs [''--a=1'', ''--b'', ''2'', ''-c'']
            = [(''a'', AStr ''1''), (''b'', AStr ''2''), (''c'', ATrue)]"
    by (simp add: parseArgs_def parse_step_def starts_with_def js_split_def set_param_def Let_def)
  have a: "map_of (parseArgs (pre @ (''--'' @ k @ ''='' @ v) # post)) k = Some (AStr v)"
    if "CHR ''='' \<notin> set k" "CHR ''='' \<notin> set v" "k \<noteq> ''__proto__''"
       "\<forall>g \<in> set post. flag_key g \<noteq> Some k"
    using that fold_other [of "(set_param ps k (AStr v), None)" k post]
    by (simp add: parseArgs_append st step_long_value map_of_set_param_same del: append.simps)
  have b: "map_of (parseArgs (pre @ (''--'' @ k) # t # post)) k = Some (AStr t)"
    if "CHR ''='' \<notin> set k" "k \<noteq> []" "k \<noteq> ''__proto__''" "\<not> starts_with t ''-''"
       "\<forall>g \<in> set post. flag_key g \<noteq> Some k"
    using that fold_other [of "(set_param (set_param ps k ATrue) k (AStr t), None)" k post]
    by (simp add: parseArgs_append st step_long_flag step_value map_of_set_param_same del: append.simps)
  have c: "map_of (parseArgs (pre @ (''-'' @ k) # t # post)) k = Some (AStr t)"
    if "\<not> starts_with k ''-''" "k \<noteq> []" "k \<noteq> ''__proto__''" "\<not> starts_with t ''-''"
       "\<forall>g \<in> set post. flag_key g \<noteq> Some k"
    using that fold_other [of "(set_param (set_param ps k ATrue) k (AStr t), None)" k post]
    by (simp add: parseArgs_append st step_short_flag step_value map_of_set_param_same del: append.simps)
  have d: "map_of (parseArgs (pre @ (''--'' @ k) # post)) k = Some ATrue"
    if "CHR ''='' \<notin> set k" "k \<noteq> ''__proto__''" "post = [] \<or> starts_with (hd post) ''-''"
       "\<forall>g \<in> set post. flag_key g \<noteq> Some k"
    using that(1,2) fold_after_flag [OF that(3,4), of "set_param ps k ATrue"]
    by (simp add: parseArgs_append st step_long_flag map_of_set_param_same del: append.simps)
  have e: "map_of (parseArgs (pre @ (''-'' @ k) # post)) k = Some ATrue"
    if "\<not> starts_with k ''-''" "k \<noteq> ''__proto__''" "post = [] \<or> starts_with (hd post) ''-''"
       "\<forall>g \<in> set post. flag_key g \<noteq> Some k"
    using that(1,2) fold_after_flag [OF that(3,4), of "set_param ps k ATrue"]
    by (simp add: parseArgs_append st step_short_flag map_of_set_param_same del: append.simps)
  show ?thesis using ex a b c d e by blast
qed

theorem parseArgs_binding_witness:
  "parseArgs [''--a=1'', ''--b'', ''2'', ''-c''] = [(''a'', AStr ''1''), (''b'', AStr ''2''), (''c'', ATrue)] \<and>
   map_of (parseArgs [''-v'', ''--out=r.csv'', ''extra'', ''--q'', ''z'']) ''out'' = Some (AStr ''r.csv'') \<and>
   map_of (parseArgs [''-v'', ''--out'', ''r.csv'', ''extra'', ''--q'', ''z'']) ''out'' = Some (AStr ''r.csv'') \<and>
   map_of (parseArgs [''-v'', ''-out'', ''r.csv'', ''extra'', ''--q'', ''z'']) ''out'' = Some (AStr ''r.csv'') \<and>
   map_of (parseArgs [''-v'', ''--out'', ''--q'', ''z'']) ''out'' = Some ATrue \<and>
   map_of (parseArgs [''-v'', ''-out'']) ''out'' = Some ATrue"
proof -
  let ?post = "[''extra'', ''--q'', ''z'']"
  let ?post' = "[''--q'', ''z'']"
  note T = parseArgs_binding [where k = "''out''" and v = "''r.csv''" and t = "''r.csv''"
      and pre = "[''-v'']" and post = ?post]
  note T' = parseArgs_binding [where k = "''out''" and v = "''r.csv''" and t = "''r.csv''"
      and pre = "[''-v'']" and post = ?post']
  note T'' = parseArgs_binding [where k = "''out''" and v = "''r.csv''" and t = "''r.csv''"
      and pre = "[''-v'']" and post = "[]"]
  have k: "CHR ''='' \<notin> set ''out''" "CHR ''='' \<notin> set ''r.csv''" "''out'' \<noteq> ''__proto__''"
    "''out'' \<noteq> []" "\<not> starts_with ''out'' ''-''" "\<not> starts_with ''r.csv'' ''-''"
    by (simp_all add: starts_with_def)
  have post: "\<forall>g \<in> set ?post. flag_key g \<noteq> Some ''out''"
    "\<forall>g \<in> set ?post'. flag_key g \<noteq> Some ''out''"
    "?post' = [] \<or> starts_with (hd ?post') ''-''"
    by (simp_all add: flag_key_def starts_with_def)
  have ex: "parseArgs [''--a=1'', ''--b'', ''2'', ''-c'']
            = [(''a'', AStr ''1''), (''b'', AStr ''2''), (''c'', ATrue)]"
    using T by (rule conjunct1)
  have a: "map_of (parseArgs ([''-v''] @ (''--'' @ ''out'' @ ''='' @ ''r.csv'') # ?post)) ''out''
           = Some (AStr ''r.csv'')"
    using T k post(1) by blast
  have b: "map_of (parseArgs ([''-v''] @ (''--'' @ ''out'') # ''r.csv'' # ?post)) ''out''
           = Some (AStr ''r.csv'')"
    using T k post(1) by blast
  have c: "map_of (parseArgs ([''-v''] @ (''-'' @ ''out'') # ''r.csv'' # ?post)) ''out''
           = Some (AStr ''r.csv'')"
    using T k post(1) by blast
  have d: "map_of (parseArgs ([''-v''] @ (''--'' @ ''out'') # ?post')) ''out'' = Some ATrue"
    using T' k post(2,3) by blast
  have e: "map_of (parseArgs ([''-v''] @ (''-'' @ ''out'') # [])) ''out'' = Some ATrue"
  proof -
    have none: "\<forall>g \<in> set ([] :: string list). flag_key g \<noteq> Some ''out''"
      "([] :: string list) = [] \<or> starts_with (hd []) ''-''"
      by simp_all
    show ?thesis using T'' k none by blast
  qed
  show ?thesis using ex a b c d e by simp
qed

section \<open>The tool adapter's result\<close>

text \<open>
  C4, as the code has it. The \<open>disconnect\<close> call is inside the \<open>try\<close> block: with a
  driver whose close call fails, configuration load, connect and query all succeed and
  the adapter still answers \<open>{success: false, ...}\<close>, with the close error's message.
\<close>

theorem dorisQuery_structured_result_counterexample:
  "createConnection stuck_close_driver [] (connect_options (tool_config cfg0 (ToolParams ''SELECT 1'' None)))
     = Inr 1 \<and>
   execute stuck_close_driver
     [CreateConnection (connect_options (tool_config cfg0 (ToolParams ''SELECT 1'' None)))] 1 ''SELECT 1'' []
     = Inr ([[(''n'', JNum 1)]], [''n'']) \<and>
   dorisQuery (Inr cfg0) stuck_close_driver (ToolParams ''SELECT 1'' None)
     = (Inr (ToolFail ''close failed'' (failure_message ''close failed'')),
        [CreateConnection (connect_options cfg0), Execute 1 ''SELECT 1'' [], End 1])"
  by (simp add: dorisQuery_def dorisQuery_try_def query_def ensureConnected_def connect_def
      disconnect_def new_client_def tool_config_def stuck_close_driver_def serving_driver_def Let_def)

text \<open>
  C4 (amended). For every input \<open>{sql, database?}\<close>, configuration load outcome and
  driver, \<open>dorisQuery\<close> does not raise. It returns \<open>{success: true, data: rows,
  message}\<close>, the message carrying the row count, when configuration load, connect,
  query and the closing disconnect all succeed; and \<open>{success: false, error, message}\<close>
  with the message of the error when any of the four fails, the steps after the
  failing one not being made.
\<close>

theorem dorisQuery_structured_result:
  "(\<exists>r. fst (dorisQuery load drv params) = Inr r) \<and>
   (\<forall>doris h rows flds.
      load = Inr doris \<and>
      createConnection drv [] (connect_options (tool_config doris params)) = Inr h \<and>
      execute drv [CreateConnection (connect_options (tool_config doris params))] h (p_sql params) []
        = Inr (rows, flds) \<and>
      end_conn drv [CreateConnection (connect_options (tool_config doris params)),
                    Execute h (p_sql params) []] h = Inr () \<longrightarrow>
      dorisQuery load drv params
      = (Inr (ToolOk rows (success_message (length rows))),
         [CreateConnection (connect_options (tool_config doris params)),
          Execute h (p_sql params) [], End h])) \<and>
   (\<forall>e. load = Inl e \<longrightarrow>
      dorisQuery load drv params
      = (Inr (ToolFail (message_of e) (failure_message (message_of e))), [])) \<and>
   (\<forall>doris e.
      load = Inr doris \<and>
      createConnection drv [] (connect_options (tool_config doris params)) = Inl e \<longrightarrow>
      dorisQuery load drv params
      = (Inr (ToolFail (message_of e) (failure_message (message_of e))),
         [CreateConnection (connect_options (tool_config doris params))])) \<and>
   (\<forall>doris h e.
      load = Inr doris \<and>
      createConnection drv [] (connect_options (tool_config doris params)) = Inr h \<and>
      execute drv [CreateConnection (connect_options (tool_config doris params))] h (p_sql params) []
        = Inl e \<longrightarrow>
      dorisQuery load drv params
      = (Inr (ToolFail (message_of e) (failure_message (message_of e))),
         [CreateConnection (connect_options (tool_config doris params)),
          Execute h (p_sql params) []])) \<and>
   (\<forall>doris h rows flds e.
      load = Inr doris \<and>
      createConnection drv [] (connect_options (tool_config doris params)) = Inr h \<and>
      execute drv [CreateConnection (connect_options (tool_config doris params))] h (p_sql params) []
        = Inr (rows, flds) \<and>
      end_conn drv [CreateConnection (connect_options (tool_config doris params)),
                    Execute h (p_sql params) []] h = Inl e \<longrightarrow>
      dorisQuery load drv params
      = (Inr (ToolFail (message_of e) (failure_message (message_of e))),
         [CreateConnection (connect_options (tool_config doris params)),
          Execute h (p_sql params) [], End h]))"
proof -
  have never: "\<exists>r. fst (dorisQuery load drv params) = Inr r"
    by (simp add: dorisQuery_def split: prod.splits sum.splits)
  show ?thesis
    apply (rule conjI [OF never])
    apply (simp add: dorisQuery_def dorisQuery_try_def query_def ensureConnected_def connect_def
        disconnect_def new_client_def Let_def)
    done
qed

theorem dorisQuery_structured_result_witness:
  "dorisQuery (Inr cfg0) serving_driver (ToolParams ''SELECT 1'' (Some ''sales''))
     = (Inr (ToolOk [[(''n'', JNum 1)]] (success_message 1)),
        [CreateConnection (connect_options (cfg0\<lparr>database := JStr ''sales''\<rparr>)),
         Execute 1 ''SELECT 1'' [], End 1]) \<and>
   dorisQuery (Inl (Error ''ENOENT'')) serving_driver (ToolParams ''SELECT 1'' None)
     = (Inr (ToolFail ''ENOENT'' (failure_message ''ENOENT'')), []) \<and>
   dorisQuery (Inr cfg0) refusing_driver (ToolParams ''SELECT 1'' None)
     = (Inr (ToolFail ''connect ECONNREFUSED'' (failure_message ''connect ECONNREFUSED'')),
        [CreateConnection (connect_options cfg0)])"
  using dorisQuery_structured_result [of "Inr cfg0" serving_driver "ToolParams ''SELECT 1'' (Some ''sales'')"]
        dorisQuery_structured_result [of "Inl (Error ''ENOENT'')" serving_driver "ToolParams ''SELECT 1'' None"]
        dorisQuery_structured_result [of "Inr cfg0" refusing_driver "ToolParams ''SELECT 1'' None"]
  by (simp add: serving_driver_def refusing_driver_def tool_config_def)

section \<open>Disconnecting\<close>

text \<open>
  C7, as the code has it. The handle and the flag are reset after the awaited close call:
  when that call fails on a connected client, \<open>disconnect\<close> raises and the client still
  holds its handle and reports connected.
\<close>

theorem disconnect_idempotent_counterexample:
  "run_ops stuck_close_driver [OpConnect] (new_client cfg0)
     = \<lparr>config = cfg0, connection = Some 1, isConnected = True,
        calls = [CreateConnection (connect_options cfg0)]\<rparr> \<and>
   disconnect stuck_close_driver (run_ops stuck_close_driver [OpConnect] (new_client cfg0))
     = (Inl (Error ''close failed''),
        \<lparr>config = cfg0, connection = Some 1, isConnected = True,
         calls = [CreateConnection (connect_options cfg0), End 1]\<rparr>)"
  by (simp add: run_ops_def connect_def disconnect_def new_client_def
      stuck_close_driver_def serving_driver_def Let_def)

lemma disconnect_none: "connection c = None \<Longrightarrow> disconnect drv c = (Inr (), c)"
  by (simp add: disconnect_def)

lemma disconnect_returns:
  assumes "disconnect drv c = (Inr (), c')" "client_inv c"
  shows "connection c' = None \<and> \<not> isConnected c'"
proof (cases "connection c")
  case None
  then have "c' = c" using assms(1) by (simp add: disconnect_def)
  then show ?thesis using None assms(2) by (auto simp: client_inv_def)
next
  case (Some h)
  then show ?thesis using assms(1)
    by (cases "end_conn drv (calls c) h") (auto simp: disconnect_def Let_def)
qed

lemma disconnect_raises:
  assumes "disconnect drv c = (Inl e, c')"
  shows "(\<exists>h. connection c = Some h \<and> end_conn drv (calls c) h = Inl e) \<and>
         connection c' = connection c \<and> isConnected c' = isConnected c"
proof (cases "connection c")
  case None
  then show ?thesis using assms by (simp add: disconnect_def)
next
  case (Some h)
  then show ?thesis using assms
    by (cases "end_conn drv (calls c) h") (auto simp: disconnect_def Let_def)
qed

text \<open>
  C7 (amended). On a client reached from a new one by any sequence of operations:
  \<open>disconnect\<close> with no handle held returns normally and changes nothing; after any
  \<open>disconnect\<close> that returns normally the client holds no handle, its connected flag is
  false, and a second \<open>disconnect\<close> returns normally and changes nothing; and
  \<open>disconnect\<close> raises only the error of a failed close call on the handle it holds,
  keeping the handle and the flag as they were.
\<close>

theorem disconnect_idempotent:
  "(connection (run_ops drv ops (new_client cfg)) = None \<longrightarrow>
      disconnect drv (run_ops drv ops (new_client cfg)) = (Inr (), run_ops drv ops (new_client cfg))) \<and>
   (\<forall>c'. disconnect drv (run_ops drv ops (new_client cfg)) = (Inr (), c') \<longrightarrow>
      connection c' = None \<and> \<not> isConnected c' \<and> disconnect drv c' = (Inr (), c')) \<and>
   (\<forall>e c'. disconnect drv (run_ops drv ops (new_client cfg)) = (Inl e, c') \<longrightarrow>
      (\<exists>h. connection (run_ops drv ops (new_client cfg)) = Some h \<and>
           end_conn drv (calls (run_ops drv ops (new_client cfg))) h = Inl e) \<and>
      connection c' = connection (run_ops drv ops (new_client cfg)) \<and>
      isConnected c' = isConnected (run_ops drv ops (new_client cfg)))"
proof -
  let ?c = "run_ops drv ops (new_client cfg)"
  have inv: "client_inv ?c" by (rule reachable_inv)
  have a: "connection ?c = None \<longrightarrow> disconnect drv ?c = (Inr (), ?c)"
    by (simp add: disconnect_none)
  have b: "connection c' = None \<and> \<not> isConnected c' \<and> disconnect drv c' = (Inr (), c')"
    if "disconnect drv ?c = (Inr (), c')" for c'
    using disconnect_returns [OF that inv] by (simp add: disconnect_none)
  have c: "(\<exists>h. connection ?c = Some h \<and> end_conn drv (calls ?c) h = Inl e) \<and>
           connection c' = connection ?c \<and> isConnected c' = isConnected ?c"
    if "disconnect drv ?c = (Inl e, c')" for e c'
    by (rule disconnect_raises [OF that])
  show ?thesis using a b c by blast
qed

theorem disconnect_idempotent_witness:
  "disconnect serving_driver (run_ops serving_driver [OpQuery ''SELECT 1'' []] (new_client cfg0))
     = (Inr (), \<lparr>config = cfg0, connection = None, isConnected = False,
                 calls = [CreateConnection (connect_options cfg0), Execute 1 ''SELECT 1'' [], End 1]\<rparr>) \<and>
   disconnect serving_driver
     \<lparr>config = cfg0, connection = None, isConnected = False,
      calls = [CreateConnection (connect_options cfg0), Execute 1 ''SELECT 1'' [], End 1]\<rparr>
     = (Inr (), \<lparr>config = cfg0, connection = None, isConnected = False,
                 calls = [CreateConnection (connect_options cfg0), Execute 1 ''SELECT 1'' [], End 1]\<rparr>) \<and>
   disconnect serving_driver (run_ops serving_driver [] (new_client cfg0))
     = (Inr (), run_ops serving_driver [] (new_client cfg0))"
proof -
  let ?c = "run_ops serving_driver [OpQuery ''SELECT 1'' []] (new_client cfg0)"
  let ?c' = "\<lparr>config = cfg0, connection = None, isConnected = False,
             calls = [CreateConnection (connect_options cfg0), Execute 1 ''SELECT 1'' [], End 1]\<rparr>"
  have run: "disconnect serving_driver ?c = (Inr (), ?c')"
    by (simp add: run_ops_def query_def ensureConnected_def connect_def disconnect_def new_client_def
        serving_driver_def Let_def)
  have fresh: "connection (run_ops serving_driver [] (new_client cfg0)) = None"
    by (simp add: run_ops_def new_client_def)
  have "\<forall>c'. disconnect serving_driver ?c = (Inr (), c') \<longrightarrow>
          connection c' = None \<and> \<not> isConnected c' \<and> disconnect serving_driver c' = (Inr (), c')"
    using disconnect_idempotent [of serving_driver "[OpQuery ''SELECT 1'' []]" cfg0]
    by (rule conjunct1 [OF conjunct2])
  then have again: "disconnect serving_driver ?c' = (Inr (), ?c')"
    using run by blast
  have "connection (run_ops serving_driver [] (new_client cfg0)) = None \<longrightarrow>
          disconnect serving_driver (run_ops serving_driver [] (new_client cfg0))
          = (Inr (), run_ops serving_driver [] (new_client cfg0))"
    using disconnect_idempotent [of serving_driver "[]" cfg0] by (rule conjunct1)
  then have noop: "disconnect serving_driver (run_ops serving_driver [] (new_client cfg0))
          = (Inr (), run_ops serving_driver [] (new_client cfg0))"
    using fresh by (rule mp)
  show ?thesis using run again noop by (intro conjI)
qed

end
